(* ===== verification/Prelude.thy ===== *)
theory Prelude
  imports Main "HOL-Library.Word" "HOL-Library.List_Lexorder" "HOL-Library.Char_ord"
begin

text \<open>
  What every component shares: the collections of simplification rules the component proofs
  use, the machine integer types, the undefined behaviours of C++ that the model tracks as
  values, reachability for step relations with the rule that an inductive invariant holds in
  every reachable state, and the generic lemmas on lists.
\<close>

named_theorems cstring_simps \<open>characterisations of the libc string functions\<close>
named_theorems wf_intros \<open>preservation of the component invariants\<close>

type_synonym u64 = "64 word"
type_synonym i32 = "32 word"

section \<open>Undefined behaviour as a value\<close>

text \<open>
  A C++ operation that leaves its buffer has no defined result. The model returns it as the
  left value of a sum, so that a theorem can say when it is impossible.
\<close>

datatype fault =
    OverRead        \<comment> \<open>a C string is read from a buffer that holds no terminator\<close>
  | OverWrite       \<comment> \<open>a formatted write does not fit its buffer\<close>
  | SignedOverflow  \<comment> \<open>an \<open>int\<close> sum leaves its range\<close>
  | FdOutOfRange    \<comment> \<open>FD_SET or FD_ISSET outside 0 .. FD_SETSIZE - 1\<close>
  | NullPointer     \<comment> \<open>a null pointer or null reference is used\<close>

definition returns :: "fault + 'a \<Rightarrow> bool" where
  "returns r = (case r of Inl _ \<Rightarrow> False | Inr _ \<Rightarrow> True)"

lemma returns_simps [simp]: "returns (Inr a)" "\<not> returns (Inl e)"
  by (simp_all add: returns_def)

lemma returns_iff: "returns r \<longleftrightarrow> (\<exists>a. r = Inr a)"
  by (cases r) auto

text \<open>Sequencing: the rest of a function runs when its first part is defined.\<close>

definition fbind :: "fault + 'a \<Rightarrow> ('a \<Rightarrow> fault + 'b) \<Rightarrow> fault + 'b" where
  "fbind r f = (case r of Inl e \<Rightarrow> Inl e | Inr a \<Rightarrow> f a)"

lemma fbind_simps [simp]: "fbind (Inl e) f = Inl e" "fbind (Inr a) f = f a"
  by (simp_all add: fbind_def)

lemma fbind_Inr_iff: "fbind r f = Inr b \<longleftrightarrow> (\<exists>a. r = Inr a \<and> f a = Inr b)"
  by (cases r) auto

lemma returns_fbind: "returns (fbind r f) \<longleftrightarrow> (\<exists>a. r = Inr a \<and> returns (f a))"
  by (cases r) auto

section \<open>Reachable states of a step relation\<close>

inductive reach :: "('s \<Rightarrow> bool) \<Rightarrow> ('s \<Rightarrow> 's \<Rightarrow> bool) \<Rightarrow> 's \<Rightarrow> bool" for ini and stp where
  reach_init: "ini s \<Longrightarrow> reach ini stp s"
| reach_step: "reach ini stp s \<Longrightarrow> stp s t \<Longrightarrow> reach ini stp t"

locale inductive_invariant =
  fixes ini :: "'s \<Rightarrow> bool" and stp :: "'s \<Rightarrow> 's \<Rightarrow> bool" and inv :: "'s \<Rightarrow> bool"
  assumes inv_init: "ini s \<Longrightarrow> inv s"
    and inv_step: "inv s \<Longrightarrow> stp s t \<Longrightarrow> inv t"
begin

lemma reach_inv: "reach ini stp s \<Longrightarrow> inv s"
  by (induction rule: reach.induct) (auto intro: inv_init inv_step)

lemma reach_step_inv: "reach ini stp s \<Longrightarrow> stp s t \<Longrightarrow> inv s \<and> inv t"
  using reach_inv inv_step by blast

end

section \<open>Lists\<close>

lemma takeWhile_all_iff: "takeWhile P xs = xs \<longleftrightarrow> (\<forall>x\<in>set xs. P x)"
  by (induction xs) auto

lemma takeWhile_append_stop: "\<forall>x\<in>set xs. P x \<Longrightarrow> \<not> P y \<Longrightarrow> takeWhile P (xs @ y # ys) = xs"
  by (induction xs) auto

lemma take_eq_iff_prefix: "length ys = n \<Longrightarrow> take n xs = ys \<longleftrightarrow> (\<exists>zs. xs = ys @ zs)"
  by (metis append_eq_conv_conj append_take_drop_id)

lemma set_takeWhile_sub: "set (takeWhile P xs) \<subseteq> set xs"
  by (auto dest: set_takeWhileD)

lemma distinct_map_list_update:
  "i < length xs \<Longrightarrow> f y = f (xs ! i) \<Longrightarrow> map f (xs[i := y]) = map f xs"
  by (simp add: map_update list_update_same_conv)

lemma map_of_map_update:
  "distinct (map f xs) \<Longrightarrow> i < length xs \<Longrightarrow> f y = f (xs ! i) \<Longrightarrow>
     map_of (map (\<lambda>s. (f s, g s)) (xs[i := y])) = (map_of (map (\<lambda>s. (f s, g s)) xs))(f y \<mapsto> g y)"
proof (induction xs arbitrary: i)
  case (Cons x xs)
  show ?case
  proof (cases i)
    case 0
    with Cons.prems show ?thesis by (simp add: fun_eq_iff)
  next
    case (Suc j)
    with Cons.prems have "f y \<noteq> f x" by (metis distinct.simps(2) image_eqI length_Cons
          list.set_map list.simps(9) not_less_eq nth_Cons_Suc nth_mem)
    with Cons Suc show ?thesis by (auto simp: fun_eq_iff)
  qed
qed simp

lemma map_of_map_nth:
  "distinct (map f xs) \<Longrightarrow> i < length xs \<Longrightarrow> map_of (map (\<lambda>s. (f s, g s)) xs) (f (xs ! i)) = Some (g (xs ! i))"
  by (simp add: map_of_eq_Some_iff comp_def)

end
