(* ===== verification/Connector.thy ===== *)
theory Connector
  imports Prelude
begin

text \<open>
  \<open>jni/main/Connector.h\<close>: the result codes, the descriptor sets of \<open>select\<close>, and the interface
  every connection object of the server implements. \<open>ServerListener\<close> knows its connections
  only through this interface, so what it relies on is the locale \<open>connector\<close>.
\<close>

definition RESULT_ERR :: int where "RESULT_ERR = -1"

definition RESULT_OK :: int where "RESULT_OK = 0"

definition RESULT_QUIT :: int where "RESULT_QUIT = 1"

lemmas result_defs = RESULT_ERR_def RESULT_OK_def RESULT_QUIT_def

text \<open>
  What a descriptor holds when it is read, an error or the bytes that wait there (none at the
  end of the input), what one \<open>read\<close> that asks for \<open>n\<close> bytes then gets, and the calls a
  connection makes on descriptors.
\<close>

datatype read_result =
    ReadErr
  | ReadBytes "char list"

definition sys_read :: "nat \<Rightarrow> read_result \<Rightarrow> read_result" where
  "sys_read n r = (case r of ReadErr \<Rightarrow> ReadErr | ReadBytes bs \<Rightarrow> ReadBytes (take n bs))"

lemma sys_read_simps [simp]:
  "sys_read n ReadErr = ReadErr" "sys_read n (ReadBytes bs) = ReadBytes (take n bs)"
  by (simp_all add: sys_read_def)

datatype io_event =
    IoRead int nat
  | IoWrite int "char list"
  | IoAccept int
  | IoNonblock int
  | IoClose int
  | IoDelete int

fun io_fd :: "io_event \<Rightarrow> int" where
  "io_fd (IoRead fd n) = fd"
| "io_fd (IoWrite fd bs) = fd"
| "io_fd (IoAccept fd) = fd"
| "io_fd (IoNonblock fd) = fd"
| "io_fd (IoClose fd) = fd"
| "io_fd (IoDelete fd) = fd"

fun is_transfer :: "io_event \<Rightarrow> bool" where
  "is_transfer (IoRead fd n) = True"
| "is_transfer (IoWrite fd bs) = True"
| "is_transfer _ = False"

definition FD_SETSIZE :: int where
  "FD_SETSIZE = 1024"

definition fd_in_range :: "int \<Rightarrow> bool" where
  "fd_in_range fd \<longleftrightarrow> 0 \<le> fd \<and> fd < FD_SETSIZE"

definition FD_SET :: "int \<Rightarrow> int set \<Rightarrow> fault + int set" where
  "FD_SET fd s = (if fd_in_range fd then Inr (insert fd s) else Inl FdOutOfRange)"

definition FD_ISSET :: "int \<Rightarrow> int set \<Rightarrow> fault + bool" where
  "FD_ISSET fd s = (if fd_in_range fd then Inr (fd \<in> s) else Inl FdOutOfRange)"

record connector_base =
  mConnID :: int

definition getConnID :: "'a connector_base_scheme \<Rightarrow> int" where
  "getConnID c = mConnID c"

text \<open>
  The interface. \<open>pre c s\<close> is the descriptor \<open>preSelect\<close> returns and the set it leaves;
  \<open>post c s r w\<close> is what \<open>postSelect\<close> returns and does when the descriptor holds \<open>r\<close> and the
  system answers a write with \<open>w\<close>.
\<close>

locale connector =
  fixes cid :: "'c \<Rightarrow> int"
    and pre :: "'c \<Rightarrow> int set option \<Rightarrow> fault + (int \<times> int set option)"
    and post :: "'c \<Rightarrow> int set \<Rightarrow> read_result \<Rightarrow> int \<Rightarrow> fault + (int \<times> io_event list)"
  assumes pre_own: "0 < cid c \<Longrightarrow> fd_in_range (cid c) \<Longrightarrow> pre c (Some s) = Inr (cid c, Some (insert (cid c) s))"
    and post_idle: "fd_in_range (cid c) \<Longrightarrow> cid c \<notin> s \<Longrightarrow> post c s r w = Inr (RESULT_ERR, [])"
    and post_own: "post c s r w = Inr (ret, evs) \<Longrightarrow> e \<in> set evs \<Longrightarrow> io_fd e = cid c"
    and post_transfer: "post c s r w = Inr (ret, evs) \<Longrightarrow> e \<in> set evs \<Longrightarrow> is_transfer e"

end
