(* ===== verification/StdMap.thy ===== *)
theory StdMap
  imports Prelude
begin

text \<open>
  \<open>std::map\<close> as the program uses it: the entries in ascending key order, \<open>find\<close>, and an
  \<open>insert\<close> that leaves an existing entry alone. The interface \<open>first_wins\<close> is what a user
  of such a table relies on; the table's clients are proved against it.
\<close>

type_synonym ('k, 'v) stdmap = "('k \<times> 'v) list"

definition stdmap_ok :: "('k::linorder, 'v) stdmap \<Rightarrow> bool" where
  "stdmap_ok m \<longleftrightarrow> sorted_wrt (<) (map fst m)"

definition stdmap_find :: "('k, 'v) stdmap \<Rightarrow> 'k \<Rightarrow> 'v option" where
  "stdmap_find m k = map_of m k"

fun stdmap_insert :: "'k::linorder \<Rightarrow> 'v \<Rightarrow> ('k, 'v) stdmap \<Rightarrow> ('k, 'v) stdmap" where
  "stdmap_insert k v [] = [(k, v)]"
| "stdmap_insert k v ((k', v') # m) =
     (if k < k' then (k, v) # (k', v') # m
      else if k = k' then (k', v') # m
      else (k', v') # stdmap_insert k v m)"

fun stdmap_erase :: "'k::linorder \<Rightarrow> ('k, 'v) stdmap \<Rightarrow> ('k, 'v) stdmap" where
  "stdmap_erase k [] = []"
| "stdmap_erase k ((k', v') # m) = (if k = k' then m else (k', v') # stdmap_erase k m)"

lemma stdmap_ok_Nil [simp]: "stdmap_ok []"
  by (simp add: stdmap_ok_def)

lemma stdmap_ok_Cons [simp]:
  "stdmap_ok ((k, v) # m) \<longleftrightarrow> (\<forall>x \<in> fst ` set m. k < x) \<and> stdmap_ok m"
  by (simp add: stdmap_ok_def)

lemma stdmap_find_Nil [simp]: "stdmap_find [] k = None"
  by (simp add: stdmap_find_def)

lemma stdmap_find_Cons [simp]:
  "stdmap_find ((k', v) # m) k = (if k = k' then Some v else stdmap_find m k)"
  by (simp add: stdmap_find_def)

lemma stdmap_find_less: "\<forall>x \<in> fst ` set m. (k :: 'k :: linorder) < x \<Longrightarrow> stdmap_find m k = None"
  unfolding stdmap_find_def map_of_eq_None_iff by (metis less_irrefl)

lemma stdmap_insert_keys: "fst ` set (stdmap_insert k v m) = insert k (fst ` set m)"
  by (induction k v m rule: stdmap_insert.induct) auto

lemma stdmap_insert_ok [wf_intros]: "stdmap_ok m \<Longrightarrow> stdmap_ok (stdmap_insert k v m)"
  by (induction k v m rule: stdmap_insert.induct) (auto simp: stdmap_insert_keys)

lemma stdmap_find_insert:
  "stdmap_ok m \<Longrightarrow> stdmap_find (stdmap_insert k v m) x =
     (if x = k \<and> stdmap_find m k = None then Some v else stdmap_find m x)"
proof (induction k v m rule: stdmap_insert.induct)
  case (2 k v k' v' m)
  show ?case
  proof (cases "k < k'")
    case True
    have "stdmap_find m k = None"
      by (rule stdmap_find_less) (use 2(2) True in \<open>auto intro: less_trans\<close>)
    with True show ?thesis by auto
  next
    case False
    with 2 show ?thesis by auto
  qed
qed simp

lemma stdmap_erase_keys: "fst ` set (stdmap_erase k m) \<subseteq> fst ` set m"
  by (induction k m rule: stdmap_erase.induct) auto

lemma stdmap_erase_ok [wf_intros]: "stdmap_ok m \<Longrightarrow> stdmap_ok (stdmap_erase k m)"
proof (induction k m rule: stdmap_erase.induct)
  case (2 k k' v' m)
  then show ?case using stdmap_erase_keys [of k m] by (auto 0 3)
qed simp

lemma stdmap_find_erase:
  "stdmap_ok m \<Longrightarrow> stdmap_find (stdmap_erase k m) x = (if x = k then None else stdmap_find m x)"
  by (induction k m rule: stdmap_erase.induct) (auto simp: stdmap_find_less)

section \<open>The interface of a table whose first writer wins\<close>

locale first_wins =
  fixes find :: "'m \<Rightarrow> 'k \<Rightarrow> 'v option"
    and add :: "'k \<Rightarrow> 'v \<Rightarrow> 'm \<Rightarrow> 'm"
    and ok :: "'m \<Rightarrow> bool"
  assumes add_ok: "ok m \<Longrightarrow> ok (add k v m)"
    and find_add: "ok m \<Longrightarrow> find (add k v m) x = (if x = k \<and> find m k = None then Some v else find m x)"
begin

lemma add_many_ok: "ok m \<Longrightarrow> ok (fold (\<lambda>(k, v). add k v) kvs m)"
  by (induction kvs arbitrary: m) (auto simp: add_ok)

lemma find_add_many:
  "ok m \<Longrightarrow> find (fold (\<lambda>(k, v). add k v) kvs m) x =
     (case find m x of Some v \<Rightarrow> Some v | None \<Rightarrow> map_of kvs x)"
proof (induction kvs arbitrary: m)
  case Nil
  then show ?case by (simp split: option.split)
next
  case (Cons kv kvs)
  obtain k v where "kv = (k, v)" by (cases kv)
  with Cons show ?case by (auto simp: find_add add_ok split: option.splits)
qed

lemma find_keeps: "ok m \<Longrightarrow> find m x = Some v \<Longrightarrow> find (add k w m) x = Some v"
  by (auto simp: find_add)

lemma add_existing: "ok m \<Longrightarrow> find m k \<noteq> None \<Longrightarrow> find (add k v m) = find m"
  by (rule ext) (simp add: find_add)

end

end
