(* ===== verification/CStrings.thy ===== *)
theory CStrings
  imports Prelude
begin

text \<open>
  The C library functions the program calls on strings and buffers. A C string is the list of
  its characters without the terminator; a buffer is the list of all its bytes. The functions
  compare, copy and format as the C standard says, in the C locale; \<open>atoll\<close> saturates as
  Bionic's does.
\<close>

definition NUL :: char where
  "NUL = CHR 0x00"

definition no_nul :: "string \<Rightarrow> bool" where
  "no_nul s \<longleftrightarrow> NUL \<notin> set s"

section \<open>Reading a C string from a buffer\<close>

definition cstr :: "char list \<Rightarrow> string" where
  "cstr buf = takeWhile (\<lambda>c. c \<noteq> NUL) buf"

definition read_cstr :: "char list \<Rightarrow> fault + string" where
  "read_cstr buf = (if NUL \<in> set buf then Inr (cstr buf) else Inl OverRead)"

lemma no_nul_cstr [simp]: "no_nul (cstr buf)"
  unfolding no_nul_def cstr_def by (auto dest: set_takeWhileD)

lemma cstr_no_nul [simp]: "no_nul s \<Longrightarrow> cstr s = s"
  unfolding no_nul_def cstr_def by (auto simp: takeWhile_eq_all_conv)

lemma cstr_append_nul [simp]: "no_nul s \<Longrightarrow> cstr (s @ NUL # t) = s"
  unfolding no_nul_def cstr_def by (rule takeWhile_append_stop) auto

lemma cstr_append_pad: "cstr (s @ replicate n NUL) = cstr s"
proof (cases "NUL \<in> set s")
  case True
  then show ?thesis unfolding cstr_def by (auto simp: takeWhile_append1)
next
  case False
  then have "no_nul s" by (simp add: no_nul_def)
  then show ?thesis by (cases n) auto
qed

lemma length_cstr: "length (cstr buf) \<le> length buf"
  unfolding cstr_def by (rule length_takeWhile_le)

lemma read_cstr_returns: "returns (read_cstr buf) \<longleftrightarrow> NUL \<in> set buf"
  by (simp add: read_cstr_def)

section \<open>Comparisons\<close>

definition c_tolower :: "char \<Rightarrow> char" where
  "c_tolower c = (if 65 \<le> (of_char c :: int) \<and> (of_char c :: int) \<le> 90
     then char_of ((of_char c :: int) + 32) else c)"

definition lower :: "string \<Rightarrow> string" where
  "lower s = map c_tolower s"

text \<open>Each function below is true where the C function returns 0.\<close>

fun strncmp_eq :: "string \<Rightarrow> string \<Rightarrow> nat \<Rightarrow> bool" where
  "strncmp_eq a b 0 = True"
| "strncmp_eq [] [] (Suc n) = True"
| "strncmp_eq [] (y # ys) (Suc n) = False"
| "strncmp_eq (x # xs) [] (Suc n) = False"
| "strncmp_eq (x # xs) (y # ys) (Suc n) = (x = y \<and> strncmp_eq xs ys n)"

fun strncasecmp_eq :: "string \<Rightarrow> string \<Rightarrow> nat \<Rightarrow> bool" where
  "strncasecmp_eq a b 0 = True"
| "strncasecmp_eq [] [] (Suc n) = True"
| "strncasecmp_eq [] (y # ys) (Suc n) = False"
| "strncasecmp_eq (x # xs) [] (Suc n) = False"
| "strncasecmp_eq (x # xs) (y # ys) (Suc n) = (c_tolower x = c_tolower y \<and> strncasecmp_eq xs ys n)"

definition strcmp_eq :: "string \<Rightarrow> string \<Rightarrow> bool" where
  "strcmp_eq a b \<longleftrightarrow> a = b"

definition strcasecmp_eq :: "string \<Rightarrow> string \<Rightarrow> bool" where
  "strcasecmp_eq a b \<longleftrightarrow> lower a = lower b"

lemma strncmp_eq_take [cstring_simps]: "strncmp_eq a b n \<longleftrightarrow> take n a = take n b"
  by (induction a b n rule: strncmp_eq.induct) auto

lemma strncasecmp_eq_take [cstring_simps]:
  "strncasecmp_eq a b n \<longleftrightarrow> lower (take n a) = lower (take n b)"
  by (induction a b n rule: strncasecmp_eq.induct) (auto simp: lower_def)

lemma length_lower [simp]: "length (lower s) = length s"
  by (simp add: lower_def)

lemma lower_append [simp]: "lower (s @ t) = lower s @ lower t"
  by (simp add: lower_def)

section \<open>Searching, copying and formatting\<close>

fun str_find :: "char \<Rightarrow> string \<Rightarrow> nat option" where
  "str_find c [] = None"
| "str_find c (x # xs) = (if x = c then Some 0 else map_option Suc (str_find c xs))"

lemma str_find_None: "str_find c s = None \<longleftrightarrow> c \<notin> set s"
  by (induction s) auto

lemma str_find_Some: "str_find c s = Some i \<Longrightarrow> i < length s \<and> take i s = takeWhile (\<lambda>x. x \<noteq> c) s"
  by (induction s arbitrary: i) (auto split: if_splits)

text \<open>\<open>strncpy (buf, s, n)\<close>: at most \<open>n\<close> characters, padded with NUL to exactly \<open>n\<close>.\<close>

definition strncpy :: "char list \<Rightarrow> string \<Rightarrow> nat \<Rightarrow> char list" where
  "strncpy buf s n = take n (s @ replicate n NUL) @ drop n buf"

text \<open>\<open>sprintf (buf, ...)\<close> of a text \<open>s\<close>: the characters and the terminator must fit.\<close>

definition sprintf :: "char list \<Rightarrow> string \<Rightarrow> fault + char list" where
  "sprintf buf s = (if length s < length buf then Inr (s @ NUL # drop (Suc (length s)) buf)
     else Inl OverWrite)"

text \<open>\<open>snprintf (buf, n, ...)\<close> of a text: the C string it leaves, for a buffer of at least \<open>n\<close> bytes.\<close>

definition snprintf :: "nat \<Rightarrow> string \<Rightarrow> string" where
  "snprintf n s = take (n - 1) s"

lemma length_strncpy [simp]: "n \<le> length buf \<Longrightarrow> length (strncpy buf s n) = length buf"
  by (simp add: strncpy_def)

lemma cstr_strncpy: "no_nul s \<Longrightarrow> cstr (strncpy (replicate (Suc n) NUL) s n) = take n s"
proof -
  assume s: "no_nul s"
  then have t: "no_nul (take n s)"
    by (auto simp: no_nul_def dest: in_set_takeD)
  have "strncpy (replicate (Suc n) NUL) s n = take n s @ NUL # replicate (n - length s) NUL"
    by (simp add: strncpy_def replicate_append_same [symmetric])
  then show ?thesis using t by simp
qed

text \<open>The buffer after \<open>read\<close> stored \<open>bs\<close> at its start.\<close>

definition read_into :: "char list \<Rightarrow> char list \<Rightarrow> char list" where
  "read_into buf bs = bs @ drop (length bs) buf"

text \<open>The bytes \<open>fgets\<close> with a limit of \<open>n\<close> characters takes from a stream, and the rest.\<close>

fun fgets :: "nat \<Rightarrow> char list \<Rightarrow> char list \<times> char list" where
  "fgets 0 s = ([], s)"
| "fgets n [] = ([], [])"
| "fgets (Suc n) (c # s) =
     (if c = CHR 0x0A then ([c], s) else (case fgets n s of (line, rest) \<Rightarrow> (c # line, rest)))"

lemma fgets_append: "fst (fgets n s) @ snd (fgets n s) = s"
  by (induction n s rule: fgets.induct) (auto split: prod.splits)

lemma fgets_length: "length (fst (fgets n s)) \<le> n"
  by (induction n s rule: fgets.induct) (auto split: prod.splits)

lemma fgets_progress: "s \<noteq> [] \<Longrightarrow> fgets (Suc n) s = (line, rest) \<Longrightarrow> length rest < length s"
proof -
  assume s: "s \<noteq> []" and f: "fgets (Suc n) s = (line, rest)"
  have "line @ rest = s" using fgets_append [of "Suc n" s] f by simp
  moreover have "line \<noteq> []" using s f by (cases s) (auto split: if_splits prod.splits)
  ultimately show ?thesis by auto
qed

section \<open>Decimal numbers\<close>

definition digit :: "nat \<Rightarrow> char" where
  "digit d = char_of (48 + d)"

fun show_nat :: "nat \<Rightarrow> string" where
  "show_nat n = (if n < 10 then [digit n] else show_nat (n div 10) @ [digit (n mod 10)])"

declare show_nat.simps [simp del]

definition show_int :: "int \<Rightarrow> string" where
  "show_int i = (if i < 0 then CHR ''-'' # show_nat (nat (- i)) else show_nat (nat i))"

definition is_space :: "char \<Rightarrow> bool" where
  "is_space c \<longleftrightarrow> c = CHR '' '' \<or> (9 \<le> (of_char c :: nat) \<and> (of_char c :: nat) \<le> 13)"

definition is_digit :: "char \<Rightarrow> bool" where
  "is_digit c \<longleftrightarrow> 48 \<le> (of_char c :: nat) \<and> (of_char c :: nat) \<le> 57"

fun dec_value :: "nat \<Rightarrow> string \<Rightarrow> nat" where
  "dec_value acc [] = acc"
| "dec_value acc (c # cs) =
     (if is_digit c then dec_value (10 * acc + (of_char c - 48)) cs else acc)"

definition saturate64 :: "int \<Rightarrow> int" where
  "saturate64 i = max (- (2 ^ 63)) (min (2 ^ 63 - 1) i)"

definition atoll :: "string \<Rightarrow> int" where
  "atoll s = (case dropWhile is_space s of
       [] \<Rightarrow> 0
     | c # cs \<Rightarrow> saturate64
         (if c = CHR ''-'' then - int (dec_value 0 cs)
          else if c = CHR ''+'' then int (dec_value 0 cs)
          else int (dec_value 0 (c # cs))))"


lemma of_char_digit: "d < 10 \<Longrightarrow> (of_char (digit d) :: nat) = 48 + d"
  by (simp add: digit_def of_char_of)

lemma is_digit_digit [simp]: "d < 10 \<Longrightarrow> is_digit (digit d)"
  by (simp add: is_digit_def of_char_digit)

lemma show_nat_digits: "\<forall>c \<in> set (show_nat n). is_digit c"
proof (induction n rule: show_nat.induct)
  case (1 n)
  then show ?case by (subst show_nat.simps) auto
qed

lemma show_nat_nonempty [simp]: "show_nat n \<noteq> []"
  by (subst show_nat.simps) simp

lemma not_digit_special: "\<not> is_digit NUL" "\<not> is_digit (CHR ''-'')" "\<not> is_digit (CHR ''+'')"
  by (simp_all add: is_digit_def NUL_def)

lemma digit_not_space: "is_digit c \<Longrightarrow> \<not> is_space c"
  by (auto simp: is_digit_def is_space_def)

lemma no_nul_show_nat [simp]: "no_nul (show_nat n)"
  unfolding no_nul_def using show_nat_digits not_digit_special(1) by blast

lemma no_nul_show_int [simp]: "no_nul (show_int i)"
proof -
  have "no_nul (show_nat n)" for n by simp
  then show ?thesis by (auto simp: show_int_def no_nul_def NUL_def)
qed

lemma dec_value_append:
  "\<forall>c \<in> set s. is_digit c \<Longrightarrow> dec_value acc (s @ t) = dec_value (dec_value acc s) t"
  by (induction s arbitrary: acc) auto

lemma dec_value_show_nat [simp]: "dec_value 0 (show_nat n) = n"
proof (induction n rule: show_nat.induct)
  case (1 n)
  show ?case
  proof (cases "n < 10")
    case True
    then show ?thesis by (simp add: show_nat.simps [of n] of_char_digit)
  next
    case False
    then show ?thesis using 1
      by (simp add: show_nat.simps [of n] dec_value_append show_nat_digits of_char_digit)
  qed
qed

lemma length_show_nat_le: "n < 10 ^ Suc k \<Longrightarrow> length (show_nat n) \<le> Suc k"
proof (induction k arbitrary: n)
  case 0
  then show ?case by (simp add: show_nat.simps)
next
  case (Suc k)
  have "n div 10 < 10 ^ Suc k" using Suc.prems by (simp add: less_mult_imp_div_less)
  from Suc.IH [OF this] show ?case by (simp add: show_nat.simps [of n])
qed

lemma length_show_u64: "length (show_nat (unat (f :: u64))) \<le> 20"
proof -
  have "unat f < 2 ^ 64" using unsigned_less [of f] by simp
  then have "unat f < 10 ^ Suc 19" by simp
  then have "length (show_nat (unat f)) \<le> Suc 19" by (rule length_show_nat_le)
  then show ?thesis by simp
qed

lemma dropWhile_digits: "c \<noteq> [] \<Longrightarrow> is_digit (hd c) \<Longrightarrow> dropWhile is_space c = c"
  by (cases c) (simp_all add: digit_not_space)

lemma atoll_show_nat_sat: "atoll (show_nat n) = saturate64 (int n)"
proof -
  obtain c cs where s: "show_nat n = c # cs"
    by (cases "show_nat n") auto
  have c: "is_digit c" using show_nat_digits [of n] s by simp
  then have "c \<noteq> CHR ''-''" "c \<noteq> CHR ''+''" using not_digit_special by auto
  moreover have "dec_value 0 (c # cs) = n" using dec_value_show_nat [of n] s by simp
  moreover have "dropWhile is_space (show_nat n) = c # cs"
    using s dropWhile_digits [of "c # cs"] c by simp
  ultimately show ?thesis by (simp add: atoll_def)
qed

text \<open>\<open>atoll\<close> reads back every integer, cut to the range of \<open>long long\<close>.\<close>

lemma atoll_show_int: "atoll (show_int i) = saturate64 i"
proof (cases "i < 0")
  case True
  have "\<not> is_space (CHR ''-'')" by (simp add: is_space_def)
  with True show ?thesis by (simp add: show_int_def atoll_def)
next
  case False
  then show ?thesis by (simp add: show_int_def atoll_show_nat_sat)
qed

lemma atoll_show_nat: "int n < 2 ^ 63 \<Longrightarrow> atoll (show_nat n) = int n"
  by (simp add: atoll_show_nat_sat saturate64_def)

lemma atoll_bounds: "- (2 ^ 63) \<le> atoll s \<and> atoll s < 2 ^ 63"
  by (auto simp: atoll_def saturate64_def split: list.splits)

section \<open>Facts for closed strings\<close>

lemmas cstring_eval = strncmp_eq_take strncasecmp_eq_take strcmp_eq_def strcasecmp_eq_def
  lower_def c_tolower_def cstr_def read_cstr_def NUL_def

section \<open>Buffers\<close>

lemma NUL_in_pad: "0 < n \<Longrightarrow> NUL \<in> set (s @ replicate n NUL)"
  by simp

lemma cstr_drop: "k \<le> length (cstr b) \<Longrightarrow> cstr (drop k b) = drop k (cstr b)"
proof (induction k arbitrary: b)
  case (Suc k)
  then show ?case by (cases b) (auto simp: cstr_def split: if_splits)
qed simp

lemma NUL_in_drop: "k \<le> length (cstr b) \<Longrightarrow> NUL \<in> set b \<Longrightarrow> NUL \<in> set (drop k b)"
proof (induction k arbitrary: b)
  case (Suc k)
  then show ?case by (cases b) (auto simp: cstr_def split: if_splits)
qed simp

lemma read_cstr_drop:
  "k \<le> length (cstr b) \<Longrightarrow> NUL \<in> set b \<Longrightarrow> read_cstr (drop k b) = Inr (drop k (cstr b))"
  by (simp add: read_cstr_def cstr_drop NUL_in_drop)

lemma cstr_take: "cstr (take n s) = take n (cstr s)"
  unfolding cstr_def by (induction s arbitrary: n) (auto simp: take_Cons split: nat.split)

lemma cstr_take_stop: "NUL \<in> set (take n s) \<Longrightarrow> cstr (take n s) = cstr s"
  using takeWhile_append1 [of NUL "take n s" "\<lambda>c. c \<noteq> NUL" "drop n s"] by (simp add: cstr_def)

lemma read_cstr_strncpy:
  "no_nul s \<Longrightarrow> read_cstr (strncpy (replicate (Suc n) NUL) s n) = Inr (take n s)"
proof -
  assume s: "no_nul s"
  have "strncpy (replicate (Suc n) NUL) s n = take n (s @ replicate n NUL) @ [NUL]"
    by (simp add: strncpy_def replicate_append_same [symmetric] del: append_replicate_commute)
  then show ?thesis using cstr_strncpy [OF s, of n] by (simp add: read_cstr_def)
qed

lemma read_cstr_sprintf:
  "no_nul s \<Longrightarrow> length s < n \<Longrightarrow> fbind (sprintf (replicate n NUL) s) read_cstr = Inr s"
  by (simp add: sprintf_def read_cstr_def)

lemma no_nul_take: "no_nul s \<Longrightarrow> no_nul (take n s)"
  by (auto simp: no_nul_def dest: in_set_takeD)

lemma no_nul_drop: "no_nul s \<Longrightarrow> no_nul (drop n s)"
  by (auto simp: no_nul_def dest: in_set_dropD)

lemma show_int_small:
  "show_int (- 1) = ''-1''" "show_int (- 2) = ''-2''" "show_int (- 3) = ''-3''"
  by code_simp+

end
