(* ===== verification/VrSDK.thy ===== *)
theory VrSDK
  imports StdMap CStrings
begin

text \<open>
  \<open>jni/main/VrSDK.cpp\<close>: one SDK of the database, with its type, its version and the feature
  bits of each external SDK version. Creating an SDK publishes its version as the system
  property \<open>vr.<type>.version\<close>; the call of \<open>property_set\<close> is part of the result, its status
  only goes to the log. A \<open>char*\<close> argument that may be null is an option.
\<close>

record vrsdk =
  mType :: string
  mVersion :: string
  mVFs :: "(string, u64) stdmap"

type_synonym property_write = "string \<times> string"

definition version_property :: "string \<Rightarrow> string" where
  "version_property type = snprintf 127 (''vr.'' @ map c_tolower type @ ''.version'')"

definition new_VrSDK :: "string \<Rightarrow> string \<Rightarrow> vrsdk \<times> property_write list" where
  "new_VrSDK type version =
     (\<lparr>mType = type, mVersion = version, mVFs = []\<rparr>, [(version_property type, version)])"

definition delete_VrSDK :: "vrsdk \<Rightarrow> vrsdk" where
  "delete_VrSDK sdk = sdk\<lparr>mVFs := []\<rparr>"

definition getType :: "vrsdk \<Rightarrow> string" where
  "getType sdk = mType sdk"

definition getVersion :: "vrsdk \<Rightarrow> string" where
  "getVersion sdk = mVersion sdk"

definition addExternalSDKItem :: "string option \<Rightarrow> u64 \<Rightarrow> vrsdk \<Rightarrow> int \<times> vrsdk" where
  "addExternalSDKItem v f sdk =
     (case v of
        None \<Rightarrow> (-1, sdk)
      | Some k \<Rightarrow>
          (case stdmap_find (mVFs sdk) k of
             Some _ \<Rightarrow> (1, sdk)
           | None \<Rightarrow> (0, sdk\<lparr>mVFs := stdmap_insert k f (mVFs sdk)\<rparr>)))"

definition getFeature :: "string option \<Rightarrow> vrsdk \<Rightarrow> u64" where
  "getFeature v sdk =
     (case v of
        None \<Rightarrow> 0
      | Some s \<Rightarrow>
          (let str = (case str_find (CHR ''.'') s of Some found \<Rightarrow> take found s | None \<Rightarrow> s)
           in case stdmap_find (mVFs sdk) str of None \<Rightarrow> 0 | Some f \<Rightarrow> f))"

text \<open>The lines of the debug dump: the SDK's own and one per entry, in key order.\<close>

definition VrSDK_debugShow :: "vrsdk \<Rightarrow> string list" where
  "VrSDK_debugShow sdk =
     (''SDK type['' @ mType sdk @ ''] version['' @ mVersion sdk @ '']'')
     # map (\<lambda>(v, f). ''ExternalSDK V['' @ v @ ''] F['' @ show_nat (unat f) @ '']'') (mVFs sdk)"

section \<open>Well-formed SDKs and the feature table\<close>

definition sdk_ok :: "vrsdk \<Rightarrow> bool" where
  "sdk_ok sdk \<longleftrightarrow> stdmap_ok (mVFs sdk)"

definition features :: "vrsdk \<Rightarrow> string \<Rightarrow> u64 option" where
  "features sdk v = stdmap_find (mVFs sdk) v"

definition add_item :: "string \<Rightarrow> u64 \<Rightarrow> vrsdk \<Rightarrow> vrsdk" where
  "add_item v f sdk = snd (addExternalSDKItem (Some v) f sdk)"

lemma sdk_ok_new [wf_intros]: "sdk_ok (fst (new_VrSDK t v))"
  by (simp add: sdk_ok_def new_VrSDK_def)

lemma features_new [simp]: "features (fst (new_VrSDK t v)) x = None"
  by (simp add: features_def new_VrSDK_def)

lemma new_VrSDK_fields [simp]:
  "mType (fst (new_VrSDK t v)) = t" "mVersion (fst (new_VrSDK t v)) = v"
  "snd (new_VrSDK t v) = [(version_property t, v)]"
  by (simp_all add: new_VrSDK_def)

lemma add_item_fields [simp]:
  "mType (add_item v f sdk) = mType sdk" "mVersion (add_item v f sdk) = mVersion sdk"
  by (auto simp: add_item_def addExternalSDKItem_def split: option.split)

lemma addExternalSDKItem_ok [wf_intros]: "sdk_ok sdk \<Longrightarrow> sdk_ok (snd (addExternalSDKItem v f sdk))"
  by (auto simp: addExternalSDKItem_def sdk_ok_def stdmap_insert_ok split: option.split)

interpretation sdk_items: first_wins features add_item sdk_ok
proof unfold_locales
  fix sdk :: vrsdk and k x :: string and v :: u64
  assume ok: "sdk_ok sdk"
  show "sdk_ok (add_item k v sdk)"
    using ok by (simp add: add_item_def addExternalSDKItem_ok)
  show "features (add_item k v sdk) x =
      (if x = k \<and> features sdk k = None then Some v else features sdk x)"
    using ok by (auto simp: add_item_def addExternalSDKItem_def features_def sdk_ok_def
        stdmap_find_insert split: option.split)
qed

lemma fold_add_item_fields [simp]:
  "mType (fold (\<lambda>(k, v). add_item k v) kvs sdk) = mType sdk"
  "mVersion (fold (\<lambda>(k, v). add_item k v) kvs sdk) = mVersion sdk"
  by (induction kvs arbitrary: sdk) auto

definition base_version :: "string \<Rightarrow> string" where
  "base_version s = takeWhile (\<lambda>c. c \<noteq> CHR ''.'') s"

lemma getFeature_features:
  "getFeature (Some s) sdk = (case features sdk (base_version s) of None \<Rightarrow> 0 | Some f \<Rightarrow> f)"
proof (cases "str_find (CHR ''.'') s")
  case None
  then have "base_version s = s"
    unfolding base_version_def by (auto simp: takeWhile_eq_all_conv str_find_None)
  with None show ?thesis by (simp add: getFeature_def features_def Let_def)
next
  case (Some i)
  then show ?thesis
    using str_find_Some [OF Some]
    by (simp add: getFeature_def features_def Let_def base_version_def)
qed

lemma base_version_idem [simp]: "base_version (base_version s) = base_version s"
  by (auto simp: base_version_def takeWhile_eq_all_conv dest: set_takeWhileD)

lemma base_version_no_dot: "CHR ''.'' \<notin> set (base_version s)"
  by (auto simp: base_version_def dest: set_takeWhileD)

lemma base_version_plain: "CHR ''.'' \<notin> set s \<Longrightarrow> base_version s = s"
  by (auto simp: base_version_def takeWhile_eq_all_conv)

section \<open>Properties\<close>

text \<open>C27: after any sequence of items is added to a new SDK, a feature query answers with the
  bits of the first item added under the queried version's part before the first dot, and
  with 0 when no item has that version. Later items of the same version change nothing.\<close>

theorem getFeature_first_item:
  "getFeature (Some q)
     (fold (\<lambda>(k, f) sdk. snd (addExternalSDKItem (Some k) f sdk)) items (fst (new_VrSDK t ver))) =
   (case map_of items (takeWhile (\<lambda>c. c \<noteq> CHR ''.'') q) of None \<Rightarrow> 0 | Some f \<Rightarrow> f)"
proof -
  have "(\<lambda>(k, f) sdk. snd (addExternalSDKItem (Some k) f sdk)) = (\<lambda>(k, f). add_item k f)"
    by (auto simp: add_item_def fun_eq_iff)
  then show ?thesis
    using sdk_items.find_add_many [OF sdk_ok_new [of t ver], of items]
    by (simp add: getFeature_features base_version_def [symmetric])
qed

text \<open>An item whose version holds a dot can never be queried: adding it to a well-formed SDK
  changes no answer, because the query is cut at its first dot before the lookup.\<close>

lemma dotted_item_unreachable:
  "sdk_ok sdk \<Longrightarrow> CHR ''.'' \<in> set k \<Longrightarrow>
     getFeature q (snd (addExternalSDKItem (Some k) f sdk)) = getFeature q sdk"
proof (cases q)
  case (Some s)
  assume ok: "sdk_ok sdk" and k: "CHR ''.'' \<in> set k"
  have "base_version s \<noteq> k" using k base_version_no_dot by metis
  then show ?thesis
    using Some sdk_items.find_add [OF ok, of k f "base_version s"]
    by (simp add: getFeature_features add_item_def)
qed (simp add: getFeature_def)

end
