(* ===== verification/XmlDatabase.thy ===== *)
theory XmlDatabase
  imports VrSDK
begin

text \<open>
  \<open>jni/main/XmlDatabase.cpp\<close>: the list of SDKs and the parser that fills it from an XML file.
  libxml2 is not part of the repository: the functions and node fields the parser uses are the
  record \<open>libxml\<close>, a parameter of the definitions, for any types of documents and nodes. A
  pointer to an SDK of the list is its index. The calls with effects outside the database
  (reading and freeing the document, the strings libxml2 allocates and the parser frees, the
  system properties written) are returned as a list of events in the order they happen. A
  string libxml2 allocates is a pointer, the number of its allocation in this call of the parser
  and its text, so that the events say which string is freed.
\<close>

record xmldb =
  mData :: "vrsdk list"

record ('d, 'n) libxml =
  xmlReadFile :: "string \<Rightarrow> 'd option"
  xmlDocGetRootElement :: "'d \<Rightarrow> 'n option"
  xml_name :: "'n \<Rightarrow> string"
  xmlGetProp :: "'n \<Rightarrow> string \<Rightarrow> string option"
  xmlNodeGetContent :: "'n \<Rightarrow> string option"
  xml_children :: "'n \<Rightarrow> 'n option"
  xml_next :: "'n \<Rightarrow> 'n option"

datatype xml_event =
    ReadDoc string
  | FreeDoc
  | AllocStr nat string
  | FreeStr nat
  | SetProp string string

definition new_XmlDatabase :: xmldb where
  "new_XmlDatabase = \<lparr>mData = []\<rparr>"

text \<open>The destructor: the SDKs it deletes, in order, and the cleared list.\<close>

definition delete_XmlDatabase :: "xmldb \<Rightarrow> vrsdk list \<times> xmldb" where
  "delete_XmlDatabase db = (map delete_VrSDK (mData db), db\<lparr>mData := []\<rparr>)"

definition XmlDatabase_debugShow :: "xmldb \<Rightarrow> string list" where
  "XmlDatabase_debugShow db = concat (map VrSDK_debugShow (mData db))"

definition getSDKSCount :: "xmldb \<Rightarrow> nat" where
  "getSDKSCount db = length (mData db)"

fun append_types :: "nat \<Rightarrow> vrsdk list \<Rightarrow> string \<Rightarrow> string" where
  "append_types i [] types = types"
| "append_types i (sdk # sdks) types =
     append_types (Suc i) sdks ((if i \<noteq> 0 then types @ ''^'' else types) @ getType sdk)"

definition getAllSDKTypes :: "xmldb \<Rightarrow> string" where
  "getAllSDKTypes db = append_types 0 (mData db) ''''"

fun find_sdk :: "(string \<Rightarrow> bool) \<Rightarrow> nat \<Rightarrow> vrsdk list \<Rightarrow> nat option" where
  "find_sdk same i [] = None"
| "find_sdk same i (sdk # sdks) =
     (if same (getType sdk) then Some i else find_sdk same (Suc i) sdks)"

definition getSDK :: "string \<Rightarrow> xmldb \<Rightarrow> nat option" where
  "getSDK type db = find_sdk (strcasecmp_eq type) 0 (mData db)"

definition GenerateSDK :: "string option \<Rightarrow> string option \<Rightarrow> xmldb \<Rightarrow> nat option \<times> xmldb \<times> xml_event list" where
  "GenerateSDK type version db =
     (case (type, version) of
        (Some t, Some v) \<Rightarrow>
          (case find_sdk (strcmp_eq t) 0 (mData db) of
             Some i \<Rightarrow> (Some i, db, [])
           | None \<Rightarrow>
               (let (sdk, props) = new_VrSDK t v
                in (Some (length (mData db)), db\<lparr>mData := mData db @ [sdk]\<rparr>,
                    map (\<lambda>(p, x). SetProp p x) props)))
      | _ \<Rightarrow> (None, db, []))"

text \<open>
  One turn of the loop over the children, for the SDK at index \<open>i\<close>, when \<open>k\<close> strings have been
  allocated so far.
\<close>

type_synonym xml_str = "nat \<times> string"

definition xml_alloc :: "nat \<Rightarrow> string option \<Rightarrow> xml_str option \<times> nat" where
  "xml_alloc k s = (case s of None \<Rightarrow> (None, k) | Some t \<Rightarrow> (Some (k, t), Suc k))"

definition ev_alloc :: "xml_str option \<Rightarrow> xml_event list" where
  "ev_alloc p = (case p of None \<Rightarrow> [] | Some (k, t) \<Rightarrow> [AllocStr k t])"

definition ev_free :: "xml_str option \<Rightarrow> xml_event list" where
  "ev_free p = (case p of None \<Rightarrow> [] | Some (k, t) \<Rightarrow> [FreeStr k])"

definition parse_child ::
  "('d, 'n) libxml \<Rightarrow> nat \<Rightarrow> 'n \<Rightarrow> nat \<Rightarrow> xmldb \<Rightarrow> xmldb \<times> nat \<times> xml_event list" where
  "parse_child X i n k db =
     (if xml_name X n = ''ExternalSDK'' then
        (let (pro, k1) = xml_alloc k (xmlGetProp X n ''Version'');
             (val, k2) = xml_alloc k1 (xmlNodeGetContent X n);
             db' = (case (pro, val) of
                 (Some (a, p), Some (b, v)) \<Rightarrow>
                   db\<lparr>mData := (mData db)[i :=
                     snd (addExternalSDKItem (Some p) (word_of_int (atoll v)) (mData db ! i))]\<rparr>
               | _ \<Rightarrow> db)
         in (db', k2, ev_alloc pro @ ev_alloc val @ ev_free pro @ ev_free val))
      else (db, k, []))"

text \<open>The loop follows the \<open>next\<close> pointers: \<open>None\<close> when it does not end.\<close>

partial_function (option) parse_children ::
  "('d, 'n) libxml \<Rightarrow> nat \<Rightarrow> 'n option \<Rightarrow> nat \<Rightarrow> xmldb \<Rightarrow> xml_event list \<Rightarrow>
     (xmldb \<times> xml_event list) option" where
  "parse_children X i cur k db evs =
     (case cur of
        None \<Rightarrow> Some (db, evs)
      | Some n \<Rightarrow>
          (case parse_child X i n k db of
             (db', k', evs') \<Rightarrow> parse_children X i (xml_next X n) k' db' (evs @ evs')))"

definition parser :: "('d, 'n) libxml \<Rightarrow> string option \<Rightarrow> xmldb \<Rightarrow> (int \<times> xmldb \<times> xml_event list) option" where
  "parser X filepath db =
     (case filepath of
        None \<Rightarrow> Some (-1, db, [])
      | Some path \<Rightarrow>
          (case xmlReadFile X path of
             None \<Rightarrow> Some (-1, db, [])
           | Some doc \<Rightarrow>
               (case xmlDocGetRootElement X doc of
                  None \<Rightarrow> Some (-1, db, [ReadDoc path, FreeDoc])
                | Some root \<Rightarrow>
                    (let (version, k) = xml_alloc 0 (xmlGetProp X root ''Version'');
                         (sdk, db1, evs1) =
                           GenerateSDK (Some (xml_name X root)) (map_option snd version) db;
                         evs = ReadDoc path # ev_alloc version @ evs1
                     in case sdk of
                          None \<Rightarrow> Some (-1, db1, evs @ [FreeDoc])
                        | Some i \<Rightarrow>
                            map_option (\<lambda>(db2, evs2). (0, db2, evs2 @ [FreeDoc]))
                              (parse_children X i (xml_children X root) k db1 evs)))))"

section \<open>Searching the list\<close>

lemma find_sdk_shift: "find_sdk same (Suc i) sdks = map_option Suc (find_sdk same i sdks)"
  by (induction sdks arbitrary: i) auto

lemma find_sdk_None: "find_sdk same i sdks = None \<longleftrightarrow> (\<forall>sdk \<in> set sdks. \<not> same (mType sdk))"
  by (induction sdks arbitrary: i) (auto simp: getType_def)

lemma find_sdk_Some:
  "find_sdk same 0 sdks = Some j \<longleftrightarrow>
     j < length sdks \<and> same (mType (sdks ! j)) \<and> (\<forall>k < j. \<not> same (mType (sdks ! k)))"
proof (induction sdks arbitrary: j)
  case (Cons sdk sdks)
  show ?case
  proof (cases j)
    case 0
    then show ?thesis by (auto simp: getType_def find_sdk_shift)
  next
    case (Suc m)
    then show ?thesis
      using Cons.IH [of m] by (auto simp: getType_def find_sdk_shift less_Suc_eq_0_disj)
  qed
qed simp

lemma find_sdk_less: "find_sdk same 0 sdks = Some j \<Longrightarrow> j < length sdks"
  by (simp add: find_sdk_Some)

section \<open>The types as one line\<close>

fun join_caret :: "string list \<Rightarrow> string" where
  "join_caret [] = []"
| "join_caret [t] = t"
| "join_caret (t # ts) = t @ ''^'' @ join_caret ts"

fun split_caret :: "string \<Rightarrow> string list" where
  "split_caret [] = [[]]"
| "split_caret (c # cs) =
     (if c = CHR ''^'' then [] # split_caret cs
      else (case split_caret cs of [] \<Rightarrow> [[c]] | t # ts \<Rightarrow> (c # t) # ts))"

lemma append_types_pos:
  "sdks \<noteq> [] \<Longrightarrow> append_types (Suc i) sdks acc = acc @ ''^'' @ join_caret (map mType sdks)"
proof (induction sdks arbitrary: i acc)
  case (Cons sdk sdks)
  show ?case
  proof (cases sdks)
    case Nil
    then show ?thesis by (simp add: getType_def)
  next
    case (Cons s ss)
    with Cons.IH [of "Suc i" "acc @ ''^'' @ mType sdk"] show ?thesis by (simp add: getType_def)
  qed
qed simp

lemma getAllSDKTypes_join: "getAllSDKTypes db = join_caret (map mType (mData db))"
proof (cases "mData db")
  case Nil
  then show ?thesis by (simp add: getAllSDKTypes_def)
next
  case (Cons s ss)
  then show ?thesis
    using append_types_pos [of ss 0] by (cases ss) (simp_all add: getAllSDKTypes_def getType_def)
qed

lemma split_caret_no: "CHR ''^'' \<notin> set t \<Longrightarrow> split_caret t = [t]"
  by (induction t) auto

lemma split_caret_append: "CHR ''^'' \<notin> set t \<Longrightarrow> split_caret (t @ CHR ''^'' # s) = t # split_caret s"
  by (induction t) auto

lemma split_join_caret:
  "ts \<noteq> [] \<Longrightarrow> \<forall>t \<in> set ts. CHR ''^'' \<notin> set t \<Longrightarrow> split_caret (join_caret ts) = ts"
  by (induction ts rule: join_caret.induct) (auto simp: split_caret_no split_caret_append)

section \<open>Well-formed databases\<close>

definition db_ok :: "xmldb \<Rightarrow> bool" where
  "db_ok db \<longleftrightarrow> distinct (map mType (mData db)) \<and> (\<forall>sdk \<in> set (mData db). sdk_ok sdk)"

lemma db_ok_new [wf_intros]: "db_ok new_XmlDatabase"
  by (simp add: db_ok_def new_XmlDatabase_def)

lemma db_ok_update:
  "db_ok db \<Longrightarrow> i < length (mData db) \<Longrightarrow> sdk_ok sdk \<Longrightarrow> mType sdk = mType (mData db ! i) \<Longrightarrow>
     db_ok (db\<lparr>mData := (mData db)[i := sdk]\<rparr>)"
  unfolding db_ok_def by (auto simp: distinct_map_list_update dest: set_update_subset_insert [THEN subsetD])

lemma GenerateSDK_ok [wf_intros]: "db_ok db \<Longrightarrow> db_ok (fst (snd (GenerateSDK t v db)))"
  by (auto simp: GenerateSDK_def db_ok_def find_sdk_None strcmp_eq_def sdk_ok_new split_beta
      split: option.splits)

lemma GenerateSDK_index:
  "GenerateSDK t v db = (Some i, db', evs) \<Longrightarrow> i < length (mData db')"
  by (auto simp: GenerateSDK_def split_beta find_sdk_less split: option.splits)

section \<open>The child loop over a finite chain of siblings\<close>

fun sibling_chain :: "('d, 'n) libxml \<Rightarrow> 'n option \<Rightarrow> 'n list \<Rightarrow> bool" where
  "sibling_chain X cur [] \<longleftrightarrow> cur = None"
| "sibling_chain X cur (n # ns) \<longleftrightarrow> cur = Some n \<and> sibling_chain X (xml_next X n) ns"

text \<open>The item a child stands for: its version and the value its text denotes.\<close>

definition child_item :: "('d, 'n) libxml \<Rightarrow> 'n \<Rightarrow> (string \<times> u64) list" where
  "child_item X n =
     (if xml_name X n = ''ExternalSDK'' then
        (case (xmlGetProp X n ''Version'', xmlNodeGetContent X n) of
           (Some p, Some v) \<Rightarrow> [(p, word_of_int (atoll v))]
         | _ \<Rightarrow> [])
      else [])"

definition child_items :: "('d, 'n) libxml \<Rightarrow> 'n list \<Rightarrow> (string \<times> u64) list" where
  "child_items X ns = concat (map (child_item X) ns)"

definition add_items :: "(string \<times> u64) list \<Rightarrow> vrsdk \<Rightarrow> vrsdk" where
  "add_items kvs = fold (\<lambda>(k, v). add_item k v) kvs"

text \<open>The calls for the child when \<open>k\<close> strings have been allocated before it, and for a chain.\<close>

definition child_events :: "('d, 'n) libxml \<Rightarrow> nat \<Rightarrow> 'n \<Rightarrow> xml_event list" where
  "child_events X k n = snd (snd (parse_child X 0 n k \<lparr>mData = []\<rparr>))"

definition child_next :: "('d, 'n) libxml \<Rightarrow> nat \<Rightarrow> 'n \<Rightarrow> nat" where
  "child_next X k n = fst (snd (parse_child X 0 n k \<lparr>mData = []\<rparr>))"

fun chain_events :: "('d, 'n) libxml \<Rightarrow> nat \<Rightarrow> 'n list \<Rightarrow> xml_event list" where
  "chain_events X k [] = []"
| "chain_events X k (n # ns) = child_events X k n @ chain_events X (child_next X k n) ns"

lemma add_items_fields [simp]:
  "mType (add_items kvs sdk) = mType sdk" "mVersion (add_items kvs sdk) = mVersion sdk"
  by (simp_all add: add_items_def)

lemma add_items_ok [wf_intros]: "sdk_ok sdk \<Longrightarrow> sdk_ok (add_items kvs sdk)"
  by (simp add: add_items_def sdk_items.add_many_ok)

lemma features_add_items:
  "sdk_ok sdk \<Longrightarrow> features (add_items kvs sdk) x =
     (case features sdk x of Some f \<Rightarrow> Some f | None \<Rightarrow> map_of kvs x)"
  by (simp add: add_items_def sdk_items.find_add_many)

lemma parse_child_eq:
  "i < length (mData db) \<Longrightarrow> parse_child X i n k db =
     (db\<lparr>mData := (mData db)[i := add_items (child_item X n) (mData db ! i)]\<rparr>,
      child_next X k n, child_events X k n)"
  by (auto simp: parse_child_def child_events_def child_next_def child_item_def add_items_def
      add_item_def xml_alloc_def Let_def split: option.split)

lemma parse_children_chain:
  assumes "sibling_chain X cur ns" and "i < length (mData db)"
  shows "parse_children X i cur k db evs =
    Some (db\<lparr>mData := (mData db)[i := add_items (child_items X ns) (mData db ! i)]\<rparr>,
      evs @ chain_events X k ns)"
  using assms
proof (induction ns arbitrary: cur k db evs)
  case Nil
  then show ?case
    by (simp add: parse_children.simps child_items_def add_items_def)
next
  case (Cons n ns)
  let ?db = "db\<lparr>mData := (mData db)[i := add_items (child_item X n) (mData db ! i)]\<rparr>"
    and ?k = "child_next X k n"
  from Cons.prems have cur: "cur = Some n" and c: "sibling_chain X (xml_next X n) ns" by auto
  have "parse_children X i cur k db evs =
      parse_children X i (xml_next X n) ?k ?db (evs @ child_events X k n)"
    using cur Cons.prems(2) by (simp add: parse_children.simps [of X i "Some n"] parse_child_eq)
  also have "\<dots> = Some (?db\<lparr>mData := (mData ?db)[i := add_items (child_items X ns) (mData ?db ! i)]\<rparr>,
      (evs @ child_events X k n) @ chain_events X ?k ns)"
    by (rule Cons.IH) (use c Cons.prems(2) in simp_all)
  finally show ?case
    using Cons.prems(2) by (simp add: child_items_def add_items_def)
qed

section \<open>The abstract table and what loading a file does to it\<close>

text \<open>
  The database stands for a map from type names to a version and a feature table. Loading a
  file adds an entry for a new type; for a known type the version stays and only feature bits
  of versions not yet present are added.
\<close>

type_synonym sdk_table = "string \<Rightarrow> (string \<times> (string \<Rightarrow> u64 option)) option"

definition sdk_entry :: "vrsdk \<Rightarrow> string \<times> (string \<Rightarrow> u64 option)" where
  "sdk_entry sdk = (mVersion sdk, features sdk)"

definition abs_db :: "xmldb \<Rightarrow> sdk_table" where
  "abs_db db = map_of (map (\<lambda>s. (mType s, sdk_entry s)) (mData db))"

definition spec_load :: "string \<Rightarrow> string \<Rightarrow> (string \<times> u64) list \<Rightarrow> sdk_table \<Rightarrow> sdk_table" where
  "spec_load t v items A =
     A(t \<mapsto> (case A t of
         None \<Rightarrow> (v, map_of items)
       | Some (v0, f) \<Rightarrow> (v0, map_of items ++ f)))"

lemma abs_db_new [simp]: "abs_db new_XmlDatabase = Map.empty"
  by (simp add: abs_db_def new_XmlDatabase_def)

lemma abs_db_update:
  "db_ok db \<Longrightarrow> i < length (mData db) \<Longrightarrow> mType sdk = mType (mData db ! i) \<Longrightarrow>
     abs_db (db\<lparr>mData := (mData db)[i := sdk]\<rparr>) = (abs_db db)(mType sdk \<mapsto> sdk_entry sdk)"
  by (simp add: abs_db_def db_ok_def map_of_map_update)

lemma abs_db_snoc:
  "abs_db db (mType sdk) = None \<Longrightarrow>
     abs_db (db\<lparr>mData := mData db @ [sdk]\<rparr>) = (abs_db db)(mType sdk \<mapsto> sdk_entry sdk)"
  by (auto simp: abs_db_def fun_eq_iff map_add_def split: option.split)

lemma abs_db_nth:
  "db_ok db \<Longrightarrow> i < length (mData db) \<Longrightarrow> abs_db db (mType (mData db ! i)) = Some (sdk_entry (mData db ! i))"
  by (simp add: abs_db_def db_ok_def map_of_map_nth)

lemma abs_db_None: "abs_db db t = None \<longleftrightarrow> t \<notin> mType ` set (mData db)"
  by (auto simp: abs_db_def map_of_eq_None_iff image_image)

lemma features_add_items_map:
  "sdk_ok sdk \<Longrightarrow> features (add_items kvs sdk) = map_of kvs ++ features sdk"
  by (rule ext) (simp add: features_add_items map_add_def split: option.split)

lemma sdk_entry_add_items:
  "sdk_ok sdk \<Longrightarrow> sdk_entry (add_items kvs sdk) = (mVersion sdk, map_of kvs ++ features sdk)"
  by (simp add: sdk_entry_def features_add_items_map)

text \<open>\<open>GenerateSDK\<close> followed by adding the items is \<open>spec_load\<close>.\<close>

lemma GenerateSDK_load:
  assumes ok: "db_ok db" and g: "GenerateSDK (Some t) (Some v) db = (sdk, db1, evs)"
  obtains i where "sdk = Some i" and "i < length (mData db1)"
    and "db_ok (db1\<lparr>mData := (mData db1)[i := add_items kvs (mData db1 ! i)]\<rparr>)"
    and "abs_db (db1\<lparr>mData := (mData db1)[i := add_items kvs (mData db1 ! i)]\<rparr>) =
      spec_load t v kvs (abs_db db)"
proof -
  have ok1: "db_ok db1" using GenerateSDK_ok [OF ok, of "Some t" "Some v"] g by simp
  show ?thesis
  proof (cases "find_sdk (strcmp_eq t) 0 (mData db)")
    case (Some i)
    with g have s: "sdk = Some i" "db1 = db" by (auto simp: GenerateSDK_def)
    have i: "i < length (mData db)" "mType (mData db ! i) = t"
      using Some by (auto simp: find_sdk_Some strcmp_eq_def)
    then have k: "sdk_ok (mData db ! i)" using ok by (auto simp: db_ok_def)
    show ?thesis
    proof
      show "db_ok (db1\<lparr>mData := (mData db1)[i := add_items kvs (mData db1 ! i)]\<rparr>)"
        using s i k ok by (auto intro!: db_ok_update add_items_ok)
      show "abs_db (db1\<lparr>mData := (mData db1)[i := add_items kvs (mData db1 ! i)]\<rparr>) =
          spec_load t v kvs (abs_db db)"
        using s i k ok abs_db_nth [OF ok, of i]
        by (simp add: abs_db_update spec_load_def sdk_entry_add_items) (simp add: sdk_entry_def)
    qed (use s i in simp_all)
  next
    case None
    let ?n = "length (mData db)" and ?new = "fst (new_VrSDK t v)"
    from None g have s: "sdk = Some ?n" "db1 = db\<lparr>mData := mData db @ [?new]\<rparr>"
      by (auto simp: GenerateSDK_def split_beta)
    have t: "abs_db db t = None"
      using None by (auto simp: abs_db_None find_sdk_None strcmp_eq_def)
    have m: "(mData db1)[?n := x] = mData db @ [x]" for x using s by simp
    have a: "mData db1 ! ?n = ?new" using s by simp
    have e: "sdk_entry (add_items kvs ?new) = (v, map_of kvs)"
      by (simp add: sdk_entry_add_items sdk_ok_new) (simp add: map_add_def fun_eq_iff)
    show ?thesis
    proof
      show "db_ok (db1\<lparr>mData := (mData db1)[?n := add_items kvs (mData db1 ! ?n)]\<rparr>)"
        using s ok1 by (intro db_ok_update add_items_ok) (auto simp: db_ok_def)
      have "abs_db (db1\<lparr>mData := (mData db1)[?n := add_items kvs (mData db1 ! ?n)]\<rparr>) =
          (abs_db db)(t \<mapsto> (v, map_of kvs))"
        using s t e abs_db_snoc [of db "add_items kvs ?new"] by simp
      then show "abs_db (db1\<lparr>mData := (mData db1)[?n := add_items kvs (mData db1 ! ?n)]\<rparr>) =
          spec_load t v kvs (abs_db db)"
        using t by (simp add: spec_load_def)
    qed (use s in simp_all)
  qed
qed

section \<open>Loading a file\<close>

text \<open>
  The file at \<open>path\<close> as libxml2 presents it: a document with a root element whose children are
  the finite list \<open>ns\<close>.
\<close>

definition xml_file :: "('d, 'n) libxml \<Rightarrow> string \<Rightarrow> 'n \<Rightarrow> 'n list \<Rightarrow> bool" where
  "xml_file X path root ns \<longleftrightarrow>
     (\<exists>doc. xmlReadFile X path = Some doc \<and> xmlDocGetRootElement X doc = Some root) \<and>
     sibling_chain X (xml_children X root) ns"

lemma parser_loads:
  assumes f: "xml_file X path root ns" and v: "xmlGetProp X root ''Version'' = Some v"
    and ok: "db_ok db"
  obtains db' evs where
    "parser X (Some path) db = Some (0, db', ReadDoc path # AllocStr 0 v # evs @
       chain_events X 1 ns @ [FreeDoc])"
    and "db_ok db'" and "abs_db db' = spec_load (xml_name X root) v (child_items X ns) (abs_db db)"
    and "evs = snd (snd (GenerateSDK (Some (xml_name X root)) (Some v) db))"
proof -
  obtain sdk db1 evs where g: "GenerateSDK (Some (xml_name X root)) (Some v) db = (sdk, db1, evs)"
    by (cases "GenerateSDK (Some (xml_name X root)) (Some v) db") auto
  from GenerateSDK_load [OF ok g, where kvs = "child_items X ns"] obtain i where
    i: "sdk = Some i" "i < length (mData db1)"
    and r: "db_ok (db1\<lparr>mData := (mData db1)[i := add_items (child_items X ns) (mData db1 ! i)]\<rparr>)"
      "abs_db (db1\<lparr>mData := (mData db1)[i := add_items (child_items X ns) (mData db1 ! i)]\<rparr>) =
         spec_load (xml_name X root) v (child_items X ns) (abs_db db)"
    by blast
  from f obtain doc where doc: "xmlReadFile X path = Some doc" "xmlDocGetRootElement X doc = Some root"
    and ch: "sibling_chain X (xml_children X root) ns" by (auto simp: xml_file_def)
  show ?thesis
  proof
    show "parser X (Some path) db =
      Some (0, db1\<lparr>mData := (mData db1)[i := add_items (child_items X ns) (mData db1 ! i)]\<rparr>,
        ReadDoc path # AllocStr 0 v # evs @ chain_events X 1 ns @ [FreeDoc])"
      using doc v g i parse_children_chain [OF ch i(2)]
      by (simp add: parser_def Let_def ev_alloc_def xml_alloc_def)
  qed (use r g in simp_all)
qed

lemma parser_fails:
  assumes "xml_file X path root ns" and "xmlGetProp X root ''Version'' = None"
  shows "parser X (Some path) db = Some (-1, db, [ReadDoc path, FreeDoc])"
  using assms by (auto simp: parser_def xml_file_def GenerateSDK_def Let_def ev_alloc_def xml_alloc_def)

text \<open>
  The strings that are allocated and not freed, by their numbers. \<open>None\<close>: a string is freed that
  is not live (freed twice, or never allocated), or one is allocated under a live number.
\<close>

fun str_heap :: "xml_event list \<Rightarrow> nat set \<Rightarrow> nat set option" where
  "str_heap [] h = Some h"
| "str_heap (AllocStr k t # evs) h = (if k \<in> h then None else str_heap evs (insert k h))"
| "str_heap (FreeStr k # evs) h = (if k \<in> h then str_heap evs (h - {k}) else None)"
| "str_heap (ReadDoc p # evs) h = str_heap evs h"
| "str_heap (FreeDoc # evs) h = str_heap evs h"
| "str_heap (SetProp p x # evs) h = str_heap evs h"

lemma child_next_mono: "k \<le> child_next X k n"
  by (auto simp: child_next_def parse_child_def xml_alloc_def split: option.split)

lemma str_heap_child:
  "\<forall>j \<in> h. j < k \<Longrightarrow> str_heap (child_events X k n @ evs) h = str_heap evs h"
proof -
  assume h: "\<forall>j \<in> h. j < k"
  then have "k \<notin> h" "Suc k \<notin> h" by auto
  moreover from this have "insert k h - {k} = h" "insert (Suc k) (insert k h) - {k} - {Suc k} = h" by auto
  ultimately show ?thesis
    by (auto simp: child_events_def parse_child_def xml_alloc_def ev_alloc_def ev_free_def
        split: option.split)
qed

lemma str_heap_chain:
  "\<forall>j \<in> h. j < k \<Longrightarrow> str_heap (chain_events X k ns @ evs) h = str_heap evs h"
proof (induction ns arbitrary: k)
  case (Cons n ns)
  have "\<forall>j \<in> h. j < child_next X k n" using Cons.prems child_next_mono [of k X n] by fastforce
  then show ?case using Cons by (simp add: str_heap_child)
qed simp

lemma chain_events_fresh:
  "e \<in> set (chain_events X k ns) \<Longrightarrow> (\<exists>j t. e = AllocStr j t \<and> k \<le> j) \<or> (\<exists>j. e = FreeStr j)"
proof (induction ns arbitrary: k)
  case (Cons n ns)
  have "(\<exists>j t. e = AllocStr j t \<and> k \<le> j) \<or> (\<exists>j. e = FreeStr j)" if "e \<in> set (child_events X k n)"
    using that by (auto simp: child_events_def parse_child_def xml_alloc_def ev_alloc_def ev_free_def
        split: option.splits if_splits)
  then show ?case using Cons.IH [of "child_next X k n"] Cons.prems child_next_mono [of k X n] by fastforce
qed simp

lemma GenerateSDK_events:
  "e \<in> set (snd (snd (GenerateSDK t v db))) \<Longrightarrow> \<exists>p x. e = SetProp p x"
  by (auto simp: GenerateSDK_def split_beta split: option.splits)

lemma str_heap_props: "\<forall>e \<in> set evs. \<exists>p x. e = SetProp p x \<Longrightarrow> str_heap (evs @ es) h = str_heap es h"
  by (induction evs) auto

section \<open>Documents given as trees\<close>

text \<open>
  A concrete libxml2: documents are finite trees, a node pointer is the rest of its sibling
  list. It shows that the hypotheses on the parameter can hold, and presents the two files the
  repository installs.
\<close>

datatype xnode =
    Elem string "(string \<times> string) list" "xnode list"
  | Text string

fun node_text :: "xnode \<Rightarrow> string" where
  "node_text (Text s) = s"
| "node_text (Elem n ps cs) = concat (map node_text cs)"

fun ptr_name :: "xnode list \<Rightarrow> string" where
  "ptr_name (Elem n ps cs # r) = n"
| "ptr_name (Text s # r) = ''text''"
| "ptr_name [] = []"

fun ptr_prop :: "xnode list \<Rightarrow> string \<Rightarrow> string option" where
  "ptr_prop (Elem n ps cs # r) p = map_of ps p"
| "ptr_prop _ p = None"

fun ptr_content :: "xnode list \<Rightarrow> string option" where
  "ptr_content (n # r) = Some (node_text n)"
| "ptr_content [] = None"

fun ptr_children :: "xnode list \<Rightarrow> xnode list option" where
  "ptr_children (Elem n ps (c # cs) # r) = Some (c # cs)"
| "ptr_children _ = None"

fun ptr_next :: "xnode list \<Rightarrow> xnode list option" where
  "ptr_next (n # m # r) = Some (m # r)"
| "ptr_next _ = None"

definition tree_xml :: "(string \<Rightarrow> xnode option) \<Rightarrow> (xnode, xnode list) libxml" where
  "tree_xml files = \<lparr>xmlReadFile = files, xmlDocGetRootElement = (\<lambda>d. Some [d]),
     xml_name = ptr_name, xmlGetProp = ptr_prop, xmlNodeGetContent = ptr_content,
     xml_children = ptr_children, xml_next = ptr_next\<rparr>"

lemma tree_xml_sel [simp]:
  "xmlReadFile (tree_xml files) = files" "xmlDocGetRootElement (tree_xml files) = (\<lambda>d. Some [d])"
  "xml_name (tree_xml files) = ptr_name" "xmlGetProp (tree_xml files) = ptr_prop"
  "xmlNodeGetContent (tree_xml files) = ptr_content"
  "xml_children (tree_xml files) = ptr_children" "xml_next (tree_xml files) = ptr_next"
  by (simp_all add: tree_xml_def)

fun siblings :: "xnode list \<Rightarrow> xnode list list" where
  "siblings [] = []"
| "siblings (n # r) = (n # r) # siblings r"

lemma siblings_chain:
  "sibling_chain (tree_xml files) (if p = [] then None else Some p) (siblings p)"
proof (induction p)
  case (Cons n r)
  then show ?case by (cases r) simp_all
qed simp

lemma tree_xml_file:
  "files path = Some (Elem t ps cs) \<Longrightarrow> xml_file (tree_xml files) path [Elem t ps cs] (siblings cs)"
  using siblings_chain [of files cs] by (cases cs) (simp_all add: xml_file_def)

text \<open>The white space between two elements: a line break and four blanks.\<close>

definition indent :: string where
  "indent = CHR 0x0A # ''    ''"

definition svrinfo :: xnode where
  "svrinfo = Elem ''SVR'' [(''Version'', ''Svr_S_001S.201610260000'')]
     [Text indent, Elem ''ExternalSDK'' [(''Version'', ''Svr_C_001S'')] [Text ''3''],
      Text indent, Elem ''ExternalSDK'' [(''Version'', ''Svr_C_001S'')] [Text ''3''],
      Text indent, Elem ''ExternalSDK'' [(''Version'', ''Svr_C_001S'')] [Text ''3''],
      Text [CHR 0x0A]]"

definition lvrinfo :: xnode where
  "lvrinfo = Elem ''LVR'' [(''Version'', ''Lvr_S_001S.201610260000'')]
     [Text indent, Elem ''ExternalSDK'' [(''Version'', ''Lvr_C_001S'')] [Text ''3''],
      Text [CHR 0x0A]]"

section \<open>Properties\<close>

text \<open>C5: loading a well-formed file into a well-formed database terminates with 0, keeps the
  database well formed (no two SDKs of one type, feature tables ordered), and does to the table
  of types exactly what \<open>spec_load\<close> says: a new type gets the file's version and its items, a
  known type keeps its version and its present items and gains the new ones.\<close>

theorem parser_refines:
  assumes "xml_file X path root ns" and "xmlGetProp X root ''Version'' = Some v" and "db_ok db"
  shows "\<exists>db' evs. parser X (Some path) db = Some (0, db', evs) \<and> db_ok db' \<and>
    abs_db db' = spec_load (xml_name X root) v (child_items X ns) (abs_db db)"
  using parser_loads [OF assms] by metis

theorem parser_refines_witness:
  "\<exists>db' evs. parser (tree_xml [''p'' \<mapsto> lvrinfo]) (Some ''p'') new_XmlDatabase = Some (0, db', evs) \<and>
     db_ok db' \<and> abs_db db' = spec_load ''LVR'' ''Lvr_S_001S.201610260000''
       [(''Lvr_C_001S'', 3)] Map.empty"
proof -
  let ?X = "tree_xml [''p'' \<mapsto> lvrinfo]"
  obtain ps cs where l: "lvrinfo = Elem ''LVR'' ps cs"
    and ps: "ps = [(''Version'', ''Lvr_S_001S.201610260000'')]"
    and cs: "cs = [Text indent, Elem ''ExternalSDK'' [(''Version'', ''Lvr_C_001S'')] [Text ''3''],
      Text [CHR 0x0A]]"
    by (simp add: lvrinfo_def)
  have f: "xml_file ?X ''p'' [lvrinfo] (siblings cs)"
    using tree_xml_file [of "[''p'' \<mapsto> lvrinfo]" "''p''" "''LVR''" ps cs] l by simp
  have v: "xmlGetProp ?X [lvrinfo] ''Version'' = Some ''Lvr_S_001S.201610260000''"
    by (simp add: l ps)
  have i: "child_items ?X (siblings cs) = [(''Lvr_C_001S'', 3)]"
    by (simp add: cs child_items_def child_item_def) code_simp
  show ?thesis
    using parser_refines [OF f v db_ok_new] by (simp add: i) (simp add: l)
qed

text \<open>A file that cannot be loaded (no path, not readable, without a root element or with a
  root without a version) makes the parser return -1 and leaves the database as it was, and the
  document is freed if it was read. No other case returns -1.\<close>

lemma parser_error:
  "parser X filepath db = Some (-1, db', evs) \<longleftrightarrow>
     db' = db \<and>
     (case filepath of None \<Rightarrow> evs = []
      | Some path \<Rightarrow>
         (case xmlReadFile X path of None \<Rightarrow> evs = []
          | Some doc \<Rightarrow>
             evs = [ReadDoc path, FreeDoc] \<and>
             (case xmlDocGetRootElement X doc of None \<Rightarrow> True
              | Some root \<Rightarrow> xmlGetProp X root ''Version'' = None)))"
  by (auto simp: parser_def GenerateSDK_def Let_def ev_alloc_def xml_alloc_def split_beta
      split: option.splits)

text \<open>C30: on every file libxml2 presents as a finite tree, and into every well-formed database,
  the parser frees the document it
  reads exactly once, as its last call, and no string twice; of the strings libxml2 allocates
  for it exactly one is left unfreed, the version of the root element, when there is one (it is
  the first string allocated), and every other one is freed.\<close>

theorem parser_frees:
  assumes "xml_file X path root ns" and "db_ok db"
  shows "\<exists>ret db' evs. parser X (Some path) db = Some (ret, db', ReadDoc path # evs @ [FreeDoc]) \<and>
    FreeDoc \<notin> set evs \<and> (\<forall>p. ReadDoc p \<notin> set evs) \<and>
    (case xmlGetProp X root ''Version'' of
       None \<Rightarrow> str_heap evs {} = Some {}
     | Some v \<Rightarrow> str_heap evs {} = Some {0} \<and>
         (\<exists>rest. evs = AllocStr 0 v # rest \<and> (\<forall>t. AllocStr 0 t \<notin> set rest)))"
proof (cases "xmlGetProp X root ''Version''")
  case None
  with parser_fails [OF assms(1)] show ?thesis by (intro exI [of _ "-1"] exI [of _ db] exI [of _ "[]"]) simp
next
  case (Some v)
  obtain db' evs where p: "parser X (Some path) db =
      Some (0, db', ReadDoc path # AllocStr 0 v # evs @ chain_events X 1 ns @ [FreeDoc])"
    and "evs = snd (snd (GenerateSDK (Some (xml_name X root)) (Some v) db))"
    using parser_loads [OF assms(1) Some assms(2)] by metis
  then have e: "\<forall>e \<in> set evs. \<exists>p x. e = SetProp p x" using GenerateSDK_events by metis
  let ?rest = "evs @ chain_events X 1 ns"
  have "str_heap (AllocStr 0 v # ?rest) {} = Some {0}"
    using str_heap_chain [of "{0}" 1 X ns "[]"] by (simp add: str_heap_props [OF e])
  moreover have "FreeDoc \<notin> set ?rest" "ReadDoc q \<notin> set ?rest" "AllocStr 0 t \<notin> set ?rest" for q t
    using e chain_events_fresh [of _ X 1 ns] by fastforce+
  ultimately show ?thesis
    using p Some by (intro exI [of _ 0] exI [of _ db'] exI [of _ "AllocStr 0 v # ?rest"]) simp
qed

theorem parser_frees_witness:
  "\<exists>ret db' evs. parser (tree_xml [''p'' \<mapsto> Elem ''SVR'' [(''Version'', ''1'')] []]) (Some ''p'') new_XmlDatabase =
      Some (ret, db', ReadDoc ''p'' # evs @ [FreeDoc]) \<and> str_heap evs {} = Some {0} \<and>
      AllocStr 0 ''1'' \<in> set evs"
proof -
  let ?f = "[''p'' \<mapsto> Elem ''SVR'' [(''Version'', ''1'')] []]"
  have f: "xml_file (tree_xml ?f) ''p'' [Elem ''SVR'' [(''Version'', ''1'')] []] (siblings [])"
    by (rule tree_xml_file) simp
  show ?thesis using parser_frees [OF f db_ok_new] by auto
qed

text \<open>C29: the line of types the database prints can be read back: when there is an SDK and no
  type holds a caret (no XML name does), splitting the line at carets gives the types in the
  order they were loaded.\<close>

theorem types_roundtrip:
  assumes "mData db \<noteq> []" and "\<forall>sdk \<in> set (mData db). CHR ''^'' \<notin> set (mType sdk)"
  shows "split_caret (getAllSDKTypes db) = map mType (mData db)"
  using assms by (simp add: getAllSDKTypes_join split_join_caret)

theorem types_roundtrip_witness:
  "split_caret (getAllSDKTypes \<lparr>mData = [fst (new_VrSDK ''SVR'' ''1''), fst (new_VrSDK ''LVR'' ''2'')]\<rparr>) =
     [''SVR'', ''LVR'']"
  using types_roundtrip [of "\<lparr>mData = [fst (new_VrSDK ''SVR'' ''1''), fst (new_VrSDK ''LVR'' ''2'')]\<rparr>"]
  by simp

text \<open>\<open>getSDK\<close> returns the first SDK whose type equals the name up to ASCII case, and
  nothing exactly when there is none, for every database and every spelling.\<close>

lemma getSDK_first:
  "getSDK name db = (if \<exists>j < length (mData db). lower name = lower (mType (mData db ! j))
     then Some (LEAST j. j < length (mData db) \<and> lower name = lower (mType (mData db ! j)))
     else None)"
proof (cases "getSDK name db")
  case None
  then show ?thesis
    by (auto simp: getSDK_def find_sdk_None strcasecmp_eq_def)
next
  case (Some i)
  then have i: "i < length (mData db)" "lower name = lower (mType (mData db ! i))"
    "\<forall>k < i. lower name \<noteq> lower (mType (mData db ! k))"
    unfolding getSDK_def find_sdk_Some strcasecmp_eq_def by blast+
  have "(LEAST j. j < length (mData db) \<and> lower name = lower (mType (mData db ! j))) = i"
    by (rule Least_equality) (use i not_less in blast)+
  with i Some show ?thesis by auto
qed

section \<open>When the child loop ends\<close>

lemma parse_children_Some_chain:
  assumes "parse_children X i cur k db evs = Some r"
  shows "\<exists>ns. sibling_chain X cur ns"
proof (rule parse_children.raw_induct
    [where P = "\<lambda>X i cur k db evs r. \<exists>ns. sibling_chain X cur ns", OF _ assms])
  fix rec :: "('a, 'b) libxml \<Rightarrow> nat \<Rightarrow> 'b option \<Rightarrow> nat \<Rightarrow> xmldb \<Rightarrow> xml_event list \<Rightarrow> (xmldb \<times> xml_event list) option"
    and X :: "('a, 'b) libxml" and i cur k db evs r
  assume IH: "\<And>X i cur k db evs r. rec X i cur k db evs = Some r \<Longrightarrow> \<exists>ns. sibling_chain X cur ns"
    and step: "(case cur of None \<Rightarrow> Some (db, evs)
      | Some n \<Rightarrow> (case parse_child X i n k db of
          (db', k', evs') \<Rightarrow> rec X i (xml_next X n) k' db' (evs @ evs'))) = Some r"
  show "\<exists>ns. sibling_chain X cur ns"
  proof (cases cur)
    case None
    then have "sibling_chain X cur []" by simp
    then show ?thesis ..
  next
    case (Some n)
    obtain db' k' evs' where p: "parse_child X i n k db = (db', k', evs')" by (cases "parse_child X i n k db") auto
    with step Some have "rec X i (xml_next X n) k' db' (evs @ evs') = Some r" by simp
    then obtain ns where "sibling_chain X (xml_next X n) ns" using IH by blast
    then have "sibling_chain X cur (n # ns)" using Some by simp
    then show ?thesis ..
  qed
qed

lemma parse_children_None:
  "i < length (mData db) \<Longrightarrow>
     parse_children X i cur k db evs = None \<longleftrightarrow> (\<nexists>ns. sibling_chain X cur ns)"
  using parse_children_Some_chain [of X i cur k db evs]
  by (cases "parse_children X i cur k db evs") (auto simp: parse_children_chain)

text \<open>A parameter whose one element is its own next sibling: there the loop never ends.\<close>

definition ring_xml :: "(unit, unit) libxml" where
  "ring_xml = \<lparr>xmlReadFile = (\<lambda>p. Some ()), xmlDocGetRootElement = Some, xml_name = (\<lambda>n. ''SVR''),
     xmlGetProp = (\<lambda>n p. Some ''1''), xmlNodeGetContent = (\<lambda>n. None), xml_children = Some,
     xml_next = Some\<rparr>"

lemma ring_no_chain: "\<not> sibling_chain ring_xml (Some ()) ns"
  by (induction ns) (simp_all add: ring_xml_def)

lemma GenerateSDK_Some: "fst (GenerateSDK (Some t) (Some v) db) \<noteq> None"
  by (simp add: GenerateSDK_def split_beta split: option.split)

lemma parser_None_iff:
  "parser X filepath db = None \<longleftrightarrow>
     (\<exists>path doc root v. filepath = Some path \<and> xmlReadFile X path = Some doc \<and>
        xmlDocGetRootElement X doc = Some root \<and> xmlGetProp X root ''Version'' = Some v \<and>
        (\<nexists>ns. sibling_chain X (xml_children X root) ns))"
    (is "?l \<longleftrightarrow> ?r")
proof -
  have "?l \<longleftrightarrow> (\<exists>path doc root. filepath = Some path \<and> xmlReadFile X path = Some doc \<and>
      xmlDocGetRootElement X doc = Some root \<and>
      (\<exists>v. xmlGetProp X root ''Version'' = Some v) \<and>
      (\<nexists>ns. sibling_chain X (xml_children X root) ns))"
  proof (cases "\<exists>path doc root v. filepath = Some path \<and> xmlReadFile X path = Some doc \<and>
      xmlDocGetRootElement X doc = Some root \<and> xmlGetProp X root ''Version'' = Some v")
    case True
    then obtain path doc root v where e: "filepath = Some path" "xmlReadFile X path = Some doc"
        "xmlDocGetRootElement X doc = Some root" "xmlGetProp X root ''Version'' = Some v" by blast
    obtain sdk db1 evs where g: "GenerateSDK (Some (xml_name X root)) (Some v) db = (sdk, db1, evs)"
      by (cases "GenerateSDK (Some (xml_name X root)) (Some v) db") auto
    then have "sdk \<noteq> None"
      using GenerateSDK_Some [of "xml_name X root" v db] by simp
    then obtain i where i: "sdk = Some i" by blast
    with g have "i < length (mData db1)" by (simp add: GenerateSDK_index)
    with e g i show ?thesis
      by (simp add: parser_def Let_def xml_alloc_def parse_children_None)
  next
    case False
    then show ?thesis
      by (auto simp: parser_def GenerateSDK_def Let_def xml_alloc_def split: option.splits)
  qed
  also have "\<dots> \<longleftrightarrow> ?r" by blast
  finally show ?thesis .
qed

lemma tree_parser_returns: "parser (tree_xml files) filepath db \<noteq> None"
proof
  assume "parser (tree_xml files) filepath db = None"
  then obtain d where n: "\<nexists>ns. sibling_chain (tree_xml files) (ptr_children [d]) ns"
    by (auto simp: parser_None_iff)
  have "sibling_chain (tree_xml files) (ptr_children [d]) (case d of Elem t ps cs \<Rightarrow> siblings cs | Text s \<Rightarrow> [])"
  proof (cases d)
    case (Elem t ps cs)
    then show ?thesis using siblings_chain [of files cs] by (cases cs) simp_all
  qed simp
  with n show False by blast
qed

lemma ring_parser_diverges: "parser ring_xml (Some path) db = None"
proof -
  have "xmlReadFile ring_xml path = Some ()" "xmlDocGetRootElement ring_xml () = Some ()"
    "xmlGetProp ring_xml () ''Version'' = Some ''1''" "xml_children ring_xml () = Some ()"
    by (simp_all add: ring_xml_def)
  then show ?thesis by (simp add: parser_None_iff ring_no_chain)
qed

text \<open>C6: the parser returns on every input, for every path and database, except one: a file
  that is read, has a root with a version, and whose chain of sibling pointers below the root
  has no end. On documents that are trees the
  chain is finite, so the parser returns on every one of them.\<close>

theorem parser_terminates:
  "(parser X filepath db = None \<longleftrightarrow>
     (\<exists>path doc root v. filepath = Some path \<and> xmlReadFile X path = Some doc \<and>
        xmlDocGetRootElement X doc = Some root \<and> xmlGetProp X root ''Version'' = Some v \<and>
        (\<nexists>ns. sibling_chain X (xml_children X root) ns))) \<and>
   parser (tree_xml files) filepath db \<noteq> None"
  by (simp add: parser_None_iff [of X] tree_parser_returns)

end
