(* ===== verification/ClientConnector.thy ===== *)
theory ClientConnector
  imports Connector XmlDatabase
begin

text \<open>
  \<open>jni/main/ClientConnector.cpp\<close>: one client of the query socket. \<open>postSelect\<close> reads at
  most 65 bytes of what the descriptor holds, answers this request from the database and writes
  the answer. The database is a reference to the server's, an argument here. The two buffers are
  modelled byte by byte, so that reading \<open>rbuff\<close> as a C string is undefined when the request filled it
  to the last byte. \<open>%lu\<close> prints a 64-bit value, as on the 64-bit targets.
\<close>

definition BUFF_SIZE :: nat where
  "BUFF_SIZE = 64"

definition zero_buffer :: "char list" where
  "zero_buffer = replicate (BUFF_SIZE + 1) NUL"

definition new_ClientConnector :: "int \<Rightarrow> connector_base" where
  "new_ClientConnector connid = \<lparr>mConnID = connid\<rparr>"

definition preSelect :: "connector_base \<Rightarrow> int set option \<Rightarrow> fault + (int \<times> int set option)" where
  "preSelect c rset =
     (if mConnID c > 0 then
        (case rset of
           Some s \<Rightarrow> fbind (FD_SET (mConnID c) s) (\<lambda>s'. Inr (mConnID c, Some s'))
         | None \<Rightarrow> Inr (mConnID c, None))
      else Inr (mConnID c, rset))"

definition version_reply :: "xmldb \<Rightarrow> string \<Rightarrow> char list \<Rightarrow> fault + (int \<times> char list)" where
  "version_reply db type w =
     (case getSDK type db of
        None \<Rightarrow> Inr (-3, w)
      | Some i \<Rightarrow>
          (let ver = getVersion (mData db ! i)
           in if ver = [] then Inr (-2, w) else Inr (0, strncpy w (cstr ver) BUFF_SIZE)))"

definition feature_reply :: "xmldb \<Rightarrow> string \<Rightarrow> char list \<Rightarrow> char list \<Rightarrow> fault + (int \<times> char list)" where
  "feature_reply db type r w =
     (case getSDK type db of
        None \<Rightarrow> Inr (-3, w)
      | Some i \<Rightarrow>
          fbind (read_cstr (drop 12 r)) (\<lambda>v.
            (let f = getFeature (Some v) (mData db ! i)
             in fbind (sprintf w (show_nat (unat f))) (\<lambda>w'. Inr (0, w')))))"

definition processMessage :: "xmldb \<Rightarrow> char list \<Rightarrow> char list \<Rightarrow> fault + (int \<times> char list)" where
  "processMessage db r w =
     (if strncasecmp_eq (cstr r) ''support_sdks'' 6 then
        (let types = getAllSDKTypes db
         in if types = [] then Inr (-2, w) else Inr (0, strncpy w (cstr types) BUFF_SIZE))
      else if strncasecmp_eq (cstr r) ''lvr_sdk_version'' 15 then version_reply db ''lvr'' w
      else if strncasecmp_eq (cstr r) ''svr_sdk_version'' 15 then version_reply db ''svr'' w
      else if strncasecmp_eq (cstr r) ''lvr_feature:'' 12 then feature_reply db ''lvr'' r w
      else if strncasecmp_eq (cstr r) ''svr_feature:'' 12 then feature_reply db ''svr'' r w
      else Inr (-1, w))"

definition postSelect ::
  "xmldb \<Rightarrow> connector_base \<Rightarrow> int set \<Rightarrow> read_result \<Rightarrow> int \<Rightarrow> fault + (int \<times> io_event list)" where
  "postSelect db c rset rd wr =
     (if mConnID c < 0 then Inr (RESULT_ERR, [])
      else fbind (FD_ISSET (mConnID c) rset) (\<lambda>isset.
        if \<not> isset then Inr (RESULT_ERR, [])
        else
          (let rdcall = IoRead (mConnID c) (BUFF_SIZE + 1)
           in case sys_read (BUFF_SIZE + 1) rd of
                ReadErr \<Rightarrow> Inr (RESULT_ERR, [rdcall])
              | ReadBytes bs \<Rightarrow>
                  if bs = [] then Inr (RESULT_QUIT, [rdcall])
                  else
                    (let rbuff = read_into zero_buffer bs
                     in if strncmp_eq (cstr rbuff) ''quit'' 4 then Inr (RESULT_QUIT, [rdcall])
                        else
                          fbind (processMessage db rbuff zero_buffer) (\<lambda>(ret, wbuff).
                          fbind (if ret < 0 then sprintf wbuff (show_int ret) else Inr wbuff) (\<lambda>wbuff.
                          fbind (read_cstr wbuff) (\<lambda>out.
                            let calls = [rdcall, IoWrite (mConnID c) out]
                            in if wr < 0 then Inr (RESULT_ERR, calls)
                               else fbind (read_cstr rbuff) (\<lambda>_. Inr (RESULT_OK, calls)))))))))"

section \<open>The answer to a request, on strings\<close>

definition starts_ci :: "string \<Rightarrow> string \<Rightarrow> bool" where
  "starts_ci lit msg \<longleftrightarrow> lower (take (length lit) msg) = lower lit"

definition version_answer :: "xmldb \<Rightarrow> string \<Rightarrow> int + string" where
  "version_answer db type =
     (case getSDK type db of None \<Rightarrow> Inl (-3)
      | Some i \<Rightarrow> (if mVersion (mData db ! i) = [] then Inl (-2) else Inr (cstr (mVersion (mData db ! i)))))"

definition feature_answer :: "xmldb \<Rightarrow> string \<Rightarrow> string \<Rightarrow> int + string" where
  "feature_answer db type q =
     (case getSDK type db of None \<Rightarrow> Inl (-3)
      | Some i \<Rightarrow> Inr (show_nat (unat (getFeature (Some q) (mData db ! i)))))"

definition answer :: "xmldb \<Rightarrow> string \<Rightarrow> int + string" where
  "answer db msg =
     (if starts_ci ''suppor'' msg then
        (if getAllSDKTypes db = [] then Inl (-2) else Inr (cstr (getAllSDKTypes db)))
      else if starts_ci ''lvr_sdk_version'' msg then version_answer db ''lvr''
      else if starts_ci ''svr_sdk_version'' msg then version_answer db ''svr''
      else if starts_ci ''lvr_feature:'' msg then feature_answer db ''lvr'' (drop 12 msg)
      else if starts_ci ''svr_feature:'' msg then feature_answer db ''svr'' (drop 12 msg)
      else Inl (-1))"

definition reply_text :: "int + string \<Rightarrow> string" where
  "reply_text a = (case a of Inl e \<Rightarrow> show_int e | Inr s \<Rightarrow> take BUFF_SIZE s)"

lemma literal_lower [simp]:
  "lower ''suppor'' = ''suppor''"
  "lower ''lvr_sdk_version'' = ''lvr_sdk_version''" "lower ''svr_sdk_version'' = ''svr_sdk_version''"
  "lower ''lvr_feature:'' = ''lvr_feature:''" "lower ''svr_feature:'' = ''svr_feature:''"
  by code_simp+

lemma starts_ci_literals:
  "starts_ci ''suppor'' msg \<longleftrightarrow> lower (take 6 msg) = ''suppor''"
  "starts_ci ''lvr_sdk_version'' msg \<longleftrightarrow> lower (take 15 msg) = ''lvr_sdk_version''"
  "starts_ci ''svr_sdk_version'' msg \<longleftrightarrow> lower (take 15 msg) = ''svr_sdk_version''"
  "starts_ci ''lvr_feature:'' msg \<longleftrightarrow> lower (take 12 msg) = ''lvr_feature:''"
  "starts_ci ''svr_feature:'' msg \<longleftrightarrow> lower (take 12 msg) = ''svr_feature:''"
  unfolding starts_ci_def literal_lower by (simp_all add: eval_nat_numeral)

lemma lower_take: "lower (take n s) = take n (lower s)"
  by (simp add: lower_def take_map)

section \<open>From buffers to strings\<close>

definition emit :: "int \<times> char list \<Rightarrow> fault + string" where
  "emit rw = fbind (if fst rw < 0 then sprintf (snd rw) (show_int (fst rw)) else Inr (snd rw)) read_cstr"

lemma emit_error: "e \<in> {-1, -2, -3} \<Longrightarrow> emit (e, zero_buffer) = Inr (reply_text (Inl e))"
proof -
  assume e: "e \<in> {-1, -2, -3}"
  then have "length (show_int e) < BUFF_SIZE + 1"
    by (auto simp: show_int_small BUFF_SIZE_def)
  then have "fbind (sprintf zero_buffer (show_int e)) read_cstr = Inr (show_int e)"
    unfolding zero_buffer_def by (rule read_cstr_sprintf [OF no_nul_show_int])
  then show ?thesis using e by (auto simp: emit_def reply_text_def)
qed

lemma emit_copy: "no_nul s \<Longrightarrow> emit (0, strncpy zero_buffer s BUFF_SIZE) = Inr (reply_text (Inr s))"
  by (simp add: emit_def reply_text_def zero_buffer_def read_cstr_strncpy del: replicate_Suc)

lemma fbind_emit_number:
  "fbind (fbind (sprintf zero_buffer (show_nat (unat (f :: u64)))) (\<lambda>w'. Inr (0, w'))) emit =
     Inr (reply_text (Inr (show_nat (unat f))))"
proof -
  have l: "length (show_nat (unat f)) \<le> 64" using length_show_u64 [of f] by simp
  then have "fbind (sprintf zero_buffer (show_nat (unat f))) read_cstr = Inr (show_nat (unat f))"
    unfolding zero_buffer_def by (intro read_cstr_sprintf) (auto simp: BUFF_SIZE_def)
  then show ?thesis
    using l by (auto simp: emit_def fbind_Inr_iff reply_text_def BUFF_SIZE_def)
qed

lemma emit_version: "fbind (version_reply db type zero_buffer) emit = Inr (reply_text (version_answer db type))"
  by (auto simp: version_reply_def version_answer_def getVersion_def emit_error emit_copy
      split: option.split)

lemma emit_feature:
  assumes "NUL \<in> set r" and "12 \<le> length (cstr r)"
  shows "fbind (feature_reply db type r zero_buffer) emit =
    Inr (reply_text (feature_answer db type (drop 12 (cstr r))))"
  using assms
  by (auto simp: feature_reply_def feature_answer_def emit_error read_cstr_drop Let_def
      fbind_emit_number split: option.split)

lemma starts_ci_length: "starts_ci lit msg \<Longrightarrow> length lit \<le> length msg"
  unfolding starts_ci_def by (metis length_lower length_take min.absorb_iff2)

lemma strncasecmp_starts_ci:
  "strncasecmp_eq msg lit n \<longleftrightarrow> starts_ci (take n lit) msg" if "n \<le> length lit"
  using that by (simp add: strncasecmp_eq_take starts_ci_def min_def)

lemma emit_processMessage:
  assumes nul: "NUL \<in> set r"
  shows "fbind (processMessage db r zero_buffer) emit = Inr (reply_text (answer db (cstr r)))"
proof -
  have "12 \<le> length (cstr r)" if "starts_ci lit (cstr r)" "length lit = 12" for lit
    using starts_ci_length [OF that(1)] that(2) by simp
  then show ?thesis
    using nul
    by (simp add: processMessage_def answer_def strncasecmp_starts_ci emit_version emit_feature
        emit_error emit_copy Let_def)
qed

section \<open>What a connection does when \<open>select\<close> returns\<close>

definition post_spec ::
  "xmldb \<Rightarrow> connector_base \<Rightarrow> int set \<Rightarrow> read_result \<Rightarrow> int \<Rightarrow> int \<times> io_event list" where
  "post_spec db c rset rd wr =
     (if mConnID c \<notin> rset then (RESULT_ERR, [])
      else
        (let rdcall = IoRead (mConnID c) 65
         in case rd of
              ReadErr \<Rightarrow> (RESULT_ERR, [rdcall])
            | ReadBytes bs \<Rightarrow>
                if bs = [] \<or> take 4 (cstr bs) = ''quit'' then (RESULT_QUIT, [rdcall])
                else (if wr < 0 then RESULT_ERR else RESULT_OK,
                      [rdcall, IoWrite (mConnID c) (reply_text (answer db (cstr (take 65 bs))))])))"

lemma read_into_zero: "length bs \<le> 65 \<Longrightarrow> read_into zero_buffer bs = bs @ replicate (65 - length bs) NUL"
  by (simp add: read_into_def zero_buffer_def BUFF_SIZE_def)

lemma quit_take: "strncmp_eq s ''quit'' 4 \<longleftrightarrow> take 4 s = ''quit''"
  by (simp add: strncmp_eq_take)

lemma fbind_emit:
  "fbind r (\<lambda>(ret, w). fbind (if ret < 0 then sprintf w (show_int ret) else Inr w)
     (\<lambda>w'. fbind (read_cstr w') k)) = fbind (fbind r emit) k"
  by (cases r) (auto simp: emit_def fbind_def split: sum.split)

lemma cstr_read [simp]: "cstr (read_into zero_buffer (take 65 bs)) = cstr (take 65 bs)"
  by (simp add: read_into_zero cstr_append_pad)

lemma quit_read [simp]: "take 4 (cstr (take 65 bs)) = take 4 (cstr bs)"
  by (simp add: cstr_take)

lemma postSelect_request:
  assumes r: "fd_in_range (mConnID c)" "mConnID c \<in> rset"
    and bs: "bs \<noteq> []" "take 4 (cstr bs) \<noteq> ''quit''"
    and nul: "NUL \<in> set (read_into zero_buffer (take 65 bs))"
  shows "postSelect db c rset (ReadBytes bs) wr =
    Inr (if wr < 0 then RESULT_ERR else RESULT_OK,
      [IoRead (mConnID c) 65, IoWrite (mConnID c) (reply_text (answer db (cstr (take 65 bs))))])"
proof -
  have rb: "read_cstr (read_into zero_buffer (take 65 bs)) = Inr (cstr (take 65 bs))"
    using nul by (simp add: read_cstr_def)
  have "0 \<le> mConnID c" using r(1) by (simp add: fd_in_range_def)
  then show ?thesis
    using r bs emit_processMessage [OF nul, of db]
    by (simp add: postSelect_def FD_ISSET_def quit_take rb Let_def fbind_emit BUFF_SIZE_def)
qed

text \<open>
  The requests that leave a terminator in \<open>rbuff\<close> or end the connection before it is needed:
  all of at most 64 bytes, and of the longer ones those that hold a NUL in the 65 bytes the
  code reads or begin with \<open>quit\<close>.
\<close>

fun fits :: "read_result \<Rightarrow> bool" where
  "fits ReadErr = True"
| "fits (ReadBytes bs) \<longleftrightarrow> length bs \<le> BUFF_SIZE \<or>
     NUL \<in> set (take (BUFF_SIZE + 1) bs) \<or> take 4 bs = ''quit''"

lemma take_cstr_prefix: "take n bs = s \<Longrightarrow> length s = n \<Longrightarrow> no_nul s \<Longrightarrow> take n (cstr bs) = s"
proof -
  assume t: "take n bs = s" and l: "length s = n" and nn: "no_nul s"
  have "cstr bs = cstr (s @ drop n bs)" using t by (metis append_take_drop_id)
  also have "\<dots> = s @ cstr (drop n bs)"
    unfolding cstr_def by (rule takeWhile_append2) (use nn in \<open>auto simp: no_nul_def\<close>)
  finally show ?thesis using l by simp
qed

lemma quit_cstr: "take 4 (cstr bs) = ''quit'' \<longleftrightarrow> take 4 bs = ''quit''"
proof
  assume "take 4 bs = ''quit''"
  then show "take 4 (cstr bs) = ''quit''"
    by (rule take_cstr_prefix) (simp_all add: no_nul_def NUL_def)
next
  assume q: "take 4 (cstr bs) = ''quit''"
  from arg_cong [OF q, of length] have l: "4 \<le> length (cstr bs)" by simp
  obtain zs where "bs = cstr bs @ zs" unfolding cstr_def by (metis takeWhile_dropWhile_id)
  from arg_cong [OF this, of "take 4"] have "take 4 bs = take 4 (cstr bs)" using l by simp
  then show "take 4 bs = ''quit''" using q by simp
qed

lemma fits_terminated:
  "fits (ReadBytes bs) \<Longrightarrow> take 4 (cstr bs) \<noteq> ''quit'' \<Longrightarrow> NUL \<in> set (read_into zero_buffer (take 65 bs))"
  by (auto simp: read_into_zero quit_cstr BUFF_SIZE_def)

lemma postSelect_post_spec:
  assumes "fd_in_range (mConnID c)" and "mConnID c \<in> rset \<Longrightarrow> fits rd"
  shows "postSelect db c rset rd wr = Inr (post_spec db c rset rd wr)"
proof (cases "mConnID c \<in> rset \<and> (\<exists>bs. rd = ReadBytes bs \<and> bs \<noteq> [] \<and> take 4 (cstr bs) \<noteq> ''quit'')")
  case True
  then obtain bs where b: "rd = ReadBytes bs" "bs \<noteq> []" "take 4 (cstr bs) \<noteq> ''quit''" by auto
  have "NUL \<in> set (read_into zero_buffer (take 65 bs))"
    using fits_terminated [of bs] assms(2) True b by (simp del: fits.simps)
  then show ?thesis
    using postSelect_request [OF assms(1)] True b by (simp add: post_spec_def)
next
  case False
  have "0 \<le> mConnID c" using assms(1) by (simp add: fd_in_range_def)
  then show ?thesis
    using False assms(1)
    by (auto simp: postSelect_def post_spec_def FD_ISSET_def Let_def quit_take BUFF_SIZE_def
        split: read_result.split)
qed

lemma postSelect_events:
  assumes "postSelect db c rset rd wr = Inr (ret, evs)"
  shows "\<forall>e \<in> set evs. e = IoRead (mConnID c) 65 \<or> (\<exists>bs. e = IoWrite (mConnID c) bs)"
  using assms
  by (auto simp: postSelect_def fbind_Inr_iff Let_def BUFF_SIZE_def
      split: if_splits read_result.splits)

text \<open>A request without NUL that fits.\<close>

lemma request_answered:
  assumes "fd_in_range fd" and "fd \<in> rset" and "0 \<le> wres"
    and "no_nul msg" and "length msg \<le> 64" and "msg \<noteq> []" and "take 4 msg \<noteq> ''quit''"
  shows "postSelect db \<lparr>mConnID = fd\<rparr> rset (ReadBytes msg) wres =
    Inr (RESULT_OK, [IoRead fd 65, IoWrite fd (reply_text (answer db msg))])"
  using postSelect_request [of "\<lparr>mConnID = fd\<rparr>" rset msg db wres] assms by (simp add: read_into_zero)

text \<open>A request that fills the buffer without a terminator, answered.\<close>

lemma unterminated_reply:
  assumes "NUL \<notin> set r"
  shows "fbind (processMessage db r zero_buffer) emit = Inl OverRead \<or>
    (\<exists>out. fbind (processMessage db r zero_buffer) emit = Inr out)"
proof -
  have "feature_reply db type r zero_buffer = Inl OverRead \<or> feature_reply db type r zero_buffer = Inr (-3, zero_buffer)" for type
    using assms by (auto simp: feature_reply_def read_cstr_def dest: in_set_dropD split: option.split)
  then have "fbind (feature_reply db type r zero_buffer) emit = Inl OverRead \<or>
      (\<exists>out. fbind (feature_reply db type r zero_buffer) emit = Inr out)" for type
    by (metis fbind_simps emit_error insertI1 insertI2)
  then show ?thesis
    by (simp add: processMessage_def emit_version emit_error emit_copy Let_def)
qed

lemma postSelect_unterminated:
  assumes "fd_in_range (mConnID c)" and "mConnID c \<in> rset" and "0 \<le> wr"
    and "65 \<le> length bs" and n: "NUL \<notin> set (take 65 bs)" and "take 4 bs \<noteq> ''quit''"
  shows "postSelect db c rset (ReadBytes bs) wr = Inl OverRead"
proof -
  have b: "read_into zero_buffer (take 65 bs) = take 65 bs" "bs \<noteq> []"
    using assms(4) by (auto simp: read_into_zero)
  have r: "read_cstr (take 65 bs) = Inl OverRead" using n by (simp add: read_cstr_def)
  have "0 \<le> mConnID c" using assms(1) by (simp add: fd_in_range_def)
  then show ?thesis
    using assms b r unterminated_reply [OF n, of db]
    by (auto simp: postSelect_def FD_ISSET_def quit_take quit_cstr Let_def fbind_emit BUFF_SIZE_def)
qed

interpretation client: connector mConnID preSelect "postSelect db" for db
proof unfold_locales
  fix c :: connector_base and s :: "int set" and r w ret evs e
  show "0 < mConnID c \<Longrightarrow> fd_in_range (mConnID c) \<Longrightarrow>
      preSelect c (Some s) = Inr (mConnID c, Some (insert (mConnID c) s))"
    by (simp add: preSelect_def FD_SET_def)
  show "fd_in_range (mConnID c) \<Longrightarrow> mConnID c \<notin> s \<Longrightarrow> postSelect db c s r w = Inr (RESULT_ERR, [])"
    by (simp add: postSelect_def FD_ISSET_def)
  show "postSelect db c s r w = Inr (ret, evs) \<Longrightarrow> e \<in> set evs \<Longrightarrow> io_fd e = mConnID c"
    using postSelect_events by fastforce
  show "postSelect db c s r w = Inr (ret, evs) \<Longrightarrow> e \<in> set evs \<Longrightarrow> is_transfer e"
    using postSelect_events by fastforce
qed

section \<open>Properties\<close>

definition shipped_db :: xmldb where
  "shipped_db = \<lparr>mData =
     [add_item ''Svr_C_001S'' 3 (fst (new_VrSDK ''SVR'' ''Svr_S_001S.201610260000'')),
      add_item ''Lvr_C_001S'' 3 (fst (new_VrSDK ''LVR'' ''Lvr_S_001S.201610260000''))]\<rparr>"

lemma reply_text_length: "length (reply_text (answer db msg)) \<le> BUFF_SIZE"
proof -
  have "length (show_int e) \<le> BUFF_SIZE" if "e \<in> {-1, -2, -3}" for e
    using that by (auto simp: show_int_small BUFF_SIZE_def)
  then show ?thesis
    by (auto simp: reply_text_def answer_def version_answer_def feature_answer_def
        split: option.split)
qed

lemma reply_text_no_nul: "no_nul (reply_text (answer db msg))"
  by (auto simp: reply_text_def answer_def version_answer_def feature_answer_def no_nul_take
      split: option.split)

text \<open>C8: a ready connection whose request leaves a terminator in the buffer (every request of at
  most 64 bytes does) never reads or writes outside its buffers and does exactly what the
  protocol says: end of input or a request beginning with \<open>quit\<close> ends it, a failed read is an
  error without effect, and any other request is answered by one write, on its own descriptor,
  of the reply the database gives to the text before the first NUL of the 65 bytes it reads.
  A connection that is not ready does nothing.\<close>

theorem postSelect_refines:
  assumes "fd_in_range (mConnID c)" and "fits rd"
  shows "postSelect db c rset rd wr =
    Inr (if mConnID c \<notin> rset then (RESULT_ERR, [])
      else case rd of
          ReadErr \<Rightarrow> (RESULT_ERR, [IoRead (mConnID c) 65])
        | ReadBytes bs \<Rightarrow>
            if bs = [] \<or> take 4 (cstr bs) = ''quit'' then (RESULT_QUIT, [IoRead (mConnID c) 65])
            else (if wr < 0 then RESULT_ERR else RESULT_OK,
              [IoRead (mConnID c) 65, IoWrite (mConnID c) (reply_text (answer db (cstr (take 65 bs))))]))"
  using postSelect_post_spec [OF assms(1), of rset rd] assms(2) by (simp add: post_spec_def Let_def)

theorem postSelect_refines_witness:
  "postSelect shipped_db \<lparr>mConnID = 9\<rparr> {9} (ReadBytes ''SVR_feature:Svr_C_001S'') 1 =
     Inr (RESULT_OK, [IoRead 9 65, IoWrite 9 ''3''])"
proof -
  have r: "fd_in_range (mConnID \<lparr>mConnID = 9\<rparr>)" by (simp add: fd_in_range_def FD_SETSIZE_def)
  have l: "fits (ReadBytes ''SVR_feature:Svr_C_001S'')"
    by (simp add: BUFF_SIZE_def)
  have q: "take 4 (cstr ''SVR_feature:Svr_C_001S'') \<noteq> ''quit''" by code_simp
  have a: "reply_text (answer shipped_db (cstr (take 65 ''SVR_feature:Svr_C_001S''))) = ''3''" by code_simp
  show ?thesis
    using postSelect_refines [OF r l, where db = shipped_db and rset = "{9}" and wr = 1] q a by simp
qed

text \<open>C35: for a ready connection whose write succeeds, the result is undefined exactly when the
  descriptor holds at least the 65 bytes the code asks \<open>read\<close> for, none of the first 65 is a
  NUL and they do not begin with \<open>quit\<close>: they fill \<open>rbuff\<close> without terminator, and answering
  such a request, whatever it asks, reads past the buffer. On everything else it can hold the
  call is defined.\<close>

theorem postSelect_overread:
  assumes "fd_in_range (mConnID c)" and "mConnID c \<in> rset" and "0 \<le> wr"
  shows "(postSelect db c rset rd wr = Inl OverRead \<longleftrightarrow>
      (\<exists>bs. rd = ReadBytes bs \<and> 65 \<le> length bs \<and> no_nul (take 65 bs) \<and> take 4 bs \<noteq> ''quit'')) \<and>
    (postSelect db c rset rd wr \<noteq> Inl OverRead \<longrightarrow> returns (postSelect db c rset rd wr))"
proof (cases "fits rd")
  case True
  then show ?thesis
    using postSelect_post_spec [OF assms(1), of rset rd db wr]
    by (cases rd) (auto simp: BUFF_SIZE_def no_nul_def)
next
  case False
  then obtain bs where rd: "rd = ReadBytes bs" "65 \<le> length bs" "take 4 bs \<noteq> ''quit''"
    and n: "NUL \<notin> set (take 65 bs)" by (cases rd) (auto simp: BUFF_SIZE_def)
  then have "postSelect db c rset (ReadBytes bs) wr = Inl OverRead"
    using postSelect_unterminated [OF assms(1,2)] assms(3) by simp
  then show ?thesis using rd n by (auto simp: no_nul_def)
qed

theorem postSelect_overread_witness:
  "postSelect shipped_db \<lparr>mConnID = 9\<rparr> {9} (ReadBytes (replicate 65 (CHR ''A''))) 0 = Inl OverRead \<and>
     postSelect shipped_db \<lparr>mConnID = 9\<rparr> {9} (ReadBytes (replicate 64 (CHR ''A''))) 0 \<noteq> Inl OverRead"
proof -
  have r: "fd_in_range (mConnID \<lparr>mConnID = 9\<rparr>)" by (simp add: fd_in_range_def FD_SETSIZE_def)
  have i: "mConnID \<lparr>mConnID = 9\<rparr> \<in> {9}" and w: "(0::int) \<le> 0" by simp_all
  have "no_nul (replicate 65 (CHR ''A''))" by (auto simp: no_nul_def NUL_def)
  moreover have "take 4 (replicate 65 (CHR ''A'')) \<noteq> ''quit''" by (simp add: numeral_eq_Suc)
  ultimately show ?thesis
    using postSelect_overread [OF r i w] by simp
qed

text \<open>Whatever the request and the database, the text written back is at most 64 characters
  and holds no NUL, so that \<open>strlen\<close> counts all of it.\<close>

lemma reply_bounds:
  "length (reply_text (answer db msg)) \<le> 64 \<and> no_nul (reply_text (answer db msg))"
  using reply_text_length [of db msg] reply_text_no_nul [of db msg] by (simp add: BUFF_SIZE_def)

lemma answer_feature:
  assumes "lower (take 12 msg) = sdk @ ''_feature:''" and "sdk \<in> {''lvr'', ''svr''}"
  shows "answer db msg = feature_answer db sdk (drop 12 msg)"
proof -
  have six: "take 4 (lower (take 12 msg)) = take 4 (lower (take k msg))" if "4 \<le> k" for k
    using that by (simp add: lower_take min_absorb1)
  have five: "take 5 (lower (take 12 msg)) = take 5 (lower (take k msg))" if "5 \<le> k" for k
    using that by (simp add: lower_take min_absorb1)
  have "\<not> starts_ci ''suppor'' msg" "\<not> starts_ci ''lvr_sdk_version'' msg"
    "\<not> starts_ci ''svr_sdk_version'' msg"
    using six [of 6] five [of 15] assms by (auto simp: starts_ci_literals)
  then show ?thesis using assms by (auto simp: answer_def starts_ci_literals)
qed

text \<open>A feature request in any letter case of its prefix is answered with the decimal digits
  of the stored 64-bit value, which read back to that value; without an SDK of the type the
  answer is -3.\<close>

lemma feature_request_roundtrip:
  assumes "lower (take 12 msg) = sdk @ ''_feature:''" and "sdk \<in> {''lvr'', ''svr''}"
  shows "case getSDK sdk db of
      None \<Rightarrow> reply_text (answer db msg) = ''-3''
    | Some i \<Rightarrow> dec_value 0 (reply_text (answer db msg)) = unat (getFeature (Some (drop 12 msg)) (mData db ! i))"
  unfolding answer_feature [OF assms]
  by (auto simp: feature_answer_def reply_text_def show_int_small BUFF_SIZE_def
      length_show_u64 [THEN order_trans] split: option.split)

text \<open>The first six letters decide a request for the list of types: every request that
  begins with \<open>suppor\<close> in any case, whatever follows, gets the list, although the code names
  the twelve-letter command \<open>support_sdks\<close>.\<close>

lemma support_prefix:
  "lower (take 6 msg) = ''suppor'' \<Longrightarrow> getAllSDKTypes db \<noteq> [] \<Longrightarrow>
     answer db msg = Inr (cstr (getAllSDKTypes db))"
  by (simp add: answer_def starts_ci_literals)

end
