(* ===== verification/ServerListener.thy ===== *)
theory ServerListener
  imports ClientConnector
begin

text \<open>
  \<open>jni/main/ServerListener.cpp\<close>: the thread that accepts clients of the query socket and serves
  them in a \<open>select\<close> loop. One turn of the loop is \<open>loop_round\<close>, a function of the server and
  of what the system answers in that turn (\<open>round_env\<close>: the result of \<open>select\<close>, of \<open>accept\<close> and
  of the writes, and what each descriptor holds to be read). The loops over the connections call
  the virtual functions through arguments, as the code calls them through the base class.
\<close>

record server =
  mWakeupRead :: int
  mWakeupWrite :: int
  mListenFd :: int
  mConnectors :: "connector_base list"
  mXmlData :: xmldb

definition XML_PATH_PREFIX :: string where
  "XML_PATH_PREFIX = ''/system/vendor/etc''"

text \<open>The constructor: both files are parsed, whatever the first one returns.\<close>

definition new_ServerListener :: "('d, 'n) libxml \<Rightarrow> (server \<times> xml_event list) option" where
  "new_ServerListener X =
     (case parser X (Some (XML_PATH_PREFIX @ ''/svrinfo.xml'')) new_XmlDatabase of
        None \<Rightarrow> None
      | Some (r1, db1, evs1) \<Rightarrow>
          (case parser X (Some (XML_PATH_PREFIX @ ''/lvrinfo.xml'')) db1 of
             None \<Rightarrow> None
           | Some (r2, db2, evs2) \<Rightarrow>
               Some (\<lparr>mWakeupRead = -1, mWakeupWrite = -1, mListenFd = -1, mConnectors = [],
                      mXmlData = db2\<rparr>, evs1 @ evs2)))"

text \<open>
  The destructor has no body: the database deletes its SDKs, the connection objects in the
  table and their descriptors stay.
\<close>

definition delete_ServerListener :: "server \<Rightarrow> vrsdk list \<times> int list" where
  "delete_ServerListener s = (fst (delete_XmlDatabase (mXmlData s)), map mConnID (mConnectors s))"

definition addConnector :: "int \<Rightarrow> server \<Rightarrow> int \<times> server" where
  "addConnector confd s =
     (if list_ex (\<lambda>c. getConnID c = confd) (mConnectors s) then (-1, s)
      else (0, s\<lparr>mConnectors := mConnectors s @ [new_ClientConnector confd]\<rparr>))"

fun erase_conn :: "int \<Rightarrow> connector_base list \<Rightarrow> connector_base list \<times> io_event list" where
  "erase_conn confd [] = ([], [])"
| "erase_conn confd (c # cs) =
     (if getConnID c = confd then (cs, [IoDelete (mConnID c)])
      else (case erase_conn confd cs of (cs', evs) \<Rightarrow> (c # cs', evs)))"

definition delConnector :: "int \<Rightarrow> server \<Rightarrow> int \<times> server \<times> io_event list" where
  "delConnector confd s =
     (case erase_conn confd (mConnectors s) of
        (cs, evs) \<Rightarrow> (0, s\<lparr>mConnectors := cs\<rparr>, evs))"

definition LoopRefresh :: "int \<Rightarrow> server \<Rightarrow> int \<times> io_event list" where
  "LoopRefresh wr s = (wr, [IoWrite (mWakeupWrite s) [CHR 0x01, NUL, NUL, NUL]])"

section \<open>Before the loop\<close>

record setup_env =
  se_pipe :: "(int \<times> int) option"
  se_socket :: int
  se_listen :: int

datatype setup_out = NoSdk | PipeFailed | ListenFailed | Serving

definition run_setup :: "setup_env \<Rightarrow> server \<Rightarrow> setup_out \<times> server \<times> io_event list" where
  "run_setup env s =
     (if getSDKSCount (mXmlData s) = 0 then (NoSdk, s, [])
      else (case se_pipe env of
          None \<Rightarrow> (PipeFailed, s, [])
        | Some (r, w) \<Rightarrow>
            (let s1 = s\<lparr>mWakeupRead := r, mWakeupWrite := w\<rparr>;
                 listenfd = se_socket env
             in if se_listen env < 0
                then (ListenFailed, s1, [IoNonblock r, IoClose listenfd])
                else (Serving, s1\<lparr>mListenFd := listenfd\<rparr>, [IoNonblock r, IoNonblock listenfd]))))"

section \<open>One turn of the loop\<close>

datatype select_result =
    SelectError bool              \<comment> \<open>true when \<open>errno\<close> is \<open>EINTR\<close>\<close>
  | Selected int "int set"        \<comment> \<open>the count it returns and the descriptors left in the set\<close>

record round_env =
  sel :: select_result
  acc :: int
  rd :: "int \<Rightarrow> read_result"
  wr :: "int \<Rightarrow> int"

datatype loop_ctl = LoopAgain | LoopReturn

fun pre_loop ::
  "('c \<Rightarrow> int set option \<Rightarrow> fault + (int \<times> int set option)) \<Rightarrow> 'c list \<Rightarrow> int set option \<Rightarrow> int \<Rightarrow>
     fault + (int \<times> int set option)" where
  "pre_loop pre [] rset maxfd = Inr (maxfd, rset)"
| "pre_loop pre (c # cs) rset maxfd =
     fbind (pre c rset) (\<lambda>(ret, rset'). pre_loop pre cs rset' (if ret > maxfd then ret else maxfd))"

definition select_args :: "server \<Rightarrow> fault + (int \<times> int set option)" where
  "select_args s =
     fbind (FD_SET (mWakeupRead s) {}) (\<lambda>rset.
     fbind (FD_SET (mListenFd s) rset) (\<lambda>rset.
       pre_loop preSelect (mConnectors s) (Some rset)
         (if mWakeupRead s > mListenFd s then mWakeupRead s else mListenFd s)))"

fun post_loop ::
  "('c \<Rightarrow> int) \<Rightarrow> ('c \<Rightarrow> fault + (int \<times> io_event list)) \<Rightarrow> 'c list \<Rightarrow> int list \<Rightarrow> bool \<Rightarrow>
     fault + (int list \<times> bool \<times> io_event list)" where
  "post_loop cid post [] quitConns rQuit = Inr (quitConns, rQuit, [])"
| "post_loop cid post (c # cs) quitConns rQuit =
     fbind (post c) (\<lambda>(ret, evs).
     fbind (if ret = RESULT_QUIT then post_loop cid post cs (quitConns @ [cid c]) True
            else post_loop cid post cs quitConns rQuit) (\<lambda>(quitConns', rQuit', evs').
       Inr (quitConns', rQuit', evs @ evs')))"

fun quit_loop :: "int list \<Rightarrow> server \<Rightarrow> server \<times> io_event list" where
  "quit_loop [] s = (s, [])"
| "quit_loop (q # qs) s =
     (case delConnector q s of (r, s1, evs1) \<Rightarrow>
       (case quit_loop qs s1 of (s2, evs2) \<Rightarrow> (s2, evs1 @ IoClose q # evs2)))"

definition accept_client :: "int \<Rightarrow> server \<Rightarrow> server \<times> io_event list" where
  "accept_client confd s =
     (if confd > 0 then (snd (addConnector confd s), [IoAccept confd, IoNonblock confd])
      else (s, [IoAccept confd]))"

text \<open>
  \<open>quitConns\<close> and \<open>rQuit\<close> are empty and false at the head of every turn: a turn that fills them
  clears them again before it ends.
\<close>

definition loop_round :: "round_env \<Rightarrow> server \<Rightarrow> fault + (loop_ctl \<times> server \<times> io_event list)" where
  "loop_round env s =
     fbind (select_args s) (\<lambda>(maxfd, watched).
       case sel env of
         SelectError eintr \<Rightarrow> Inr (if eintr then LoopAgain else LoopReturn, s, [])
       | Selected nfds rset \<Rightarrow>
           fbind (FD_ISSET (mWakeupRead s) rset) (\<lambda>wake.
             let evs1 = (if wake then [IoRead (mWakeupRead s) 4] else [])
             in if wake \<and> nfds = 1 then Inr (LoopAgain, s, evs1)
                else fbind (FD_ISSET (mListenFd s) rset) (\<lambda>listening.
                  let (s1, evs2) = (if listening then accept_client (acc env) s else (s, []))
                  in if listening \<and> nfds = 1 then Inr (LoopAgain, s1, evs1 @ evs2)
                     else fbind (post_loop getConnID
                         (\<lambda>c. postSelect (mXmlData s1) c rset (rd env (mConnID c)) (wr env (mConnID c)))
                         (mConnectors s1) [] False) (\<lambda>(quitConns, rQuit, evs3).
                       let (s2, evs4) = (if rQuit then quit_loop quitConns s1 else (s1, []))
                       in Inr (LoopAgain, s2, evs1 @ evs2 @ evs3 @ evs4)))))"

section \<open>The whole of run\<close>

text \<open>
  The loop has no end of its own: over the answers of the system to its next turns it goes on
  until a turn returns or the answers are used up (\<open>LoopAgain\<close>).
\<close>

fun run_loop :: "round_env list \<Rightarrow> server \<Rightarrow> fault + (loop_ctl \<times> server \<times> io_event list)" where
  "run_loop [] s = Inr (LoopAgain, s, [])"
| "run_loop (env # envs) s =
     fbind (loop_round env s) (\<lambda>(ctl, s1, evs1).
       if ctl = LoopReturn then Inr (LoopReturn, s1, evs1)
       else fbind (run_loop envs s1) (\<lambda>(ctl', s2, evs2). Inr (ctl', s2, evs1 @ evs2)))"

definition run :: "setup_env \<Rightarrow> round_env list \<Rightarrow> server \<Rightarrow> fault + (loop_ctl \<times> server \<times> io_event list)" where
  "run env envs s =
     (case run_setup env s of
        (Serving, s1, evs1) \<Rightarrow>
          fbind (run_loop envs s1) (\<lambda>(ctl, s2, evs2). Inr (ctl, s2, evs1 @ evs2))
      | (_, s1, evs1) \<Rightarrow> Inr (LoopReturn, s1, evs1))"

section \<open>The table of connections\<close>

text \<open>The contract of \<open>addConnector\<close> and \<open>delConnector\<close>, on the ids of the connections.\<close>

locale conn_table =
  fixes ids :: "'s \<Rightarrow> int list" and add :: "int \<Rightarrow> 's \<Rightarrow> 's" and del :: "int \<Rightarrow> 's \<Rightarrow> 's"
  assumes ids_add: "ids (add fd s) = (if fd \<in> set (ids s) then ids s else ids s @ [fd])"
    and ids_del: "ids (del fd s) = remove1 fd (ids s)"
begin

lemma distinct_add: "distinct (ids s) \<Longrightarrow> distinct (ids (add fd s))"
  by (simp add: ids_add)

lemma ids_del_many: "distinct (ids s) \<Longrightarrow> ids (fold del qs s) = filter (\<lambda>x. x \<notin> set qs) (ids s)"
proof (induction qs arbitrary: s)
  case (Cons q qs)
  have "distinct (ids (del q s))" using Cons.prems by (simp add: ids_del)
  from Cons.IH [OF this] Cons.prems show ?case
    by (auto simp: ids_del distinct_remove1_removeAll removeAll_filter_not_eq intro: filter_cong)
qed simp

lemma distinct_del_many: "distinct (ids s) \<Longrightarrow> distinct (ids (fold del qs s))"
  by (simp add: ids_del_many)

end

definition conn_ids :: "server \<Rightarrow> int list" where
  "conn_ids s = map mConnID (mConnectors s)"

definition add_conn :: "int \<Rightarrow> server \<Rightarrow> server" where
  "add_conn fd s = snd (addConnector fd s)"

definition del_conn :: "int \<Rightarrow> server \<Rightarrow> server" where
  "del_conn fd s = fst (snd (delConnector fd s))"

lemma erase_conn_ids: "map mConnID (fst (erase_conn fd cs)) = remove1 fd (map mConnID cs)"
  by (induction cs) (auto simp: getConnID_def split: prod.splits)

lemma erase_conn_events:
  "snd (erase_conn fd cs) = (if fd \<in> mConnID ` set cs then [IoDelete fd] else [])"
  by (induction cs) (auto simp: getConnID_def split: prod.splits)

interpretation conns: conn_table conn_ids add_conn del_conn
proof unfold_locales
  fix fd s
  show "conn_ids (add_conn fd s) = (if fd \<in> set (conn_ids s) then conn_ids s else conn_ids s @ [fd])"
    by (auto simp: conn_ids_def add_conn_def addConnector_def list_ex_iff getConnID_def
        new_ClientConnector_def)
  show "conn_ids (del_conn fd s) = remove1 fd (conn_ids s)"
    by (simp add: conn_ids_def del_conn_def delConnector_def erase_conn_ids split_beta)
qed

lemma frame_add_conn [simp]:
  "mXmlData (add_conn fd s) = mXmlData s" "mListenFd (add_conn fd s) = mListenFd s"
  "mWakeupRead (add_conn fd s) = mWakeupRead s" "mWakeupWrite (add_conn fd s) = mWakeupWrite s"
  by (simp_all add: add_conn_def addConnector_def)

lemma frame_del_conn [simp]:
  "mXmlData (del_conn fd s) = mXmlData s" "mListenFd (del_conn fd s) = mListenFd s"
  "mWakeupRead (del_conn fd s) = mWakeupRead s" "mWakeupWrite (del_conn fd s) = mWakeupWrite s"
  by (simp_all add: del_conn_def delConnector_def split_beta)

lemma frame_del_many [simp]:
  "mXmlData (fold del_conn qs s) = mXmlData s" "mListenFd (fold del_conn qs s) = mListenFd s"
  "mWakeupRead (fold del_conn qs s) = mWakeupRead s" "mWakeupWrite (fold del_conn qs s) = mWakeupWrite s"
  by (induction qs arbitrary: s) simp_all

lemma conn_ids_getConnID: "map getConnID (mConnectors s) = conn_ids s"
  by (simp add: conn_ids_def getConnID_def)

lemma quit_loop_state: "fst (quit_loop qs s) = fold del_conn qs s"
  by (induction qs arbitrary: s) (auto simp: del_conn_def split_beta)

lemma delConnector_events:
  "snd (snd (delConnector q s)) = (if q \<in> set (conn_ids s) then [IoDelete q] else [])"
  by (simp add: delConnector_def split_beta erase_conn_events conn_ids_def)

lemma quit_loop_events:
  "distinct qs \<Longrightarrow> set qs \<subseteq> set (conn_ids s) \<Longrightarrow> distinct (conn_ids s) \<Longrightarrow>
     snd (quit_loop qs s) = concat (map (\<lambda>q. [IoDelete q, IoClose q]) qs)"
proof (induction qs arbitrary: s)
  case (Cons q qs)
  have "set qs \<subseteq> set (conn_ids (del_conn q s))" "distinct (conn_ids (del_conn q s))"
    using Cons.prems by (auto simp: conns.ids_del)
  with Cons have "snd (quit_loop qs (del_conn q s)) = concat (map (\<lambda>q. [IoDelete q, IoClose q]) qs)"
    by simp
  moreover have "snd (snd (delConnector q s)) = [IoDelete q]"
    using Cons.prems by (simp add: delConnector_events)
  ultimately show ?case by (simp add: del_conn_def split_beta)
qed simp

section \<open>The loops over the connections\<close>

context connector
begin

lemma pre_loop_watches:
  "\<forall>c \<in> set cs. 0 < cid c \<and> fd_in_range (cid c) \<Longrightarrow>
     pre_loop pre cs (Some s) m = Inr (foldl max m (map cid cs), Some (s \<union> cid ` set cs))"
proof (induction cs arbitrary: s m)
  case (Cons c cs)
  then have "pre c (Some s) = Inr (cid c, Some (insert (cid c) s))"
    by (simp add: pre_own)
  with Cons show ?case by (simp add: max_def)
qed simp

lemma pre_loop_out_of_range:
  assumes "\<exists>c \<in> set cs. \<forall>s. pre c (Some s) = Inl FdOutOfRange"
    and "\<forall>c \<in> set cs. (0 < cid c \<and> fd_in_range (cid c)) \<or> (\<forall>s. pre c (Some s) = Inl FdOutOfRange)"
  shows "pre_loop pre cs (Some s) m = Inl FdOutOfRange"
  using assms
proof (induction cs arbitrary: s m)
  case (Cons c cs)
  show ?case
  proof (cases "\<forall>s. pre c (Some s) = Inl FdOutOfRange")
    case False
    with Cons.prems have "pre c (Some s) = Inr (cid c, Some (insert (cid c) s))"
      by (auto simp: pre_own)
    with Cons False show ?thesis by auto
  qed simp
qed simp

lemma post_loop_owned:
  "post_loop cid (\<lambda>c. post c s (r c) (w c)) cs q b = Inr (q', b', evs) \<Longrightarrow> e \<in> set evs \<Longrightarrow>
     is_transfer e \<and> io_fd e \<in> cid ` set cs"
proof (induction cs arbitrary: q b q' b' evs)
  case (Cons c cs)
  from Cons.prems(1) obtain ret evs1 q1 b1 evs2 where
    c: "post c s (r c) (w c) = Inr (ret, evs1)"
    and cs: "post_loop cid (\<lambda>c. post c s (r c) (w c)) cs q1 b1 = Inr (q', b', evs2)"
    and evs: "evs = evs1 @ evs2"
    by (fastforce simp: fbind_Inr_iff split: if_splits)
  show ?case
  proof (cases "e \<in> set evs1")
    case True
    then show ?thesis using post_own [OF c] post_transfer [OF c] by simp
  next
    case False
    then show ?thesis using Cons.IH [OF cs] Cons.prems(2) evs by simp
  qed
qed simp

end

lemma post_loop_total:
  assumes "\<forall>c \<in> set cs. post c = Inr (f c)"
  shows "post_loop cid post cs q b =
    Inr (q @ map cid (filter (\<lambda>c. fst (f c) = RESULT_QUIT) cs),
      b \<or> (\<exists>c \<in> set cs. fst (f c) = RESULT_QUIT), concat (map (snd \<circ> f) cs))"
  using assms by (induction cs arbitrary: q b) (auto simp: split_beta)

section \<open>What one turn does\<close>

definition watched :: "server \<Rightarrow> int set" where
  "watched s = {mWakeupRead s, mListenFd s} \<union> set (conn_ids s)"

definition srv_ok :: "server \<Rightarrow> bool" where
  "srv_ok s \<longleftrightarrow> distinct (conn_ids s) \<and> mWakeupRead s \<noteq> mListenFd s \<and>
     mWakeupRead s \<notin> set (conn_ids s) \<and> mListenFd s \<notin> set (conn_ids s) \<and>
     (\<forall>fd \<in> watched s. fd_in_range fd) \<and> (\<forall>fd \<in> set (conn_ids s). 0 < fd)"

fun ready :: "select_result \<Rightarrow> int set" where
  "ready (SelectError eintr) = {}"
| "ready (Selected nfds rset) = rset"

text \<open>
  What the system promises: \<open>select\<close> leaves a subset of the watched descriptors and counts it,
  \<open>accept\<close> returns a descriptor that is not in use; and what the clients do: no ready
  descriptor holds a request that fills the buffer without terminator (\<open>fits\<close>).
\<close>

definition env_ok :: "int set \<Rightarrow> server \<Rightarrow> round_env \<Rightarrow> bool" where
  "env_ok used s env \<longleftrightarrow>
     (case sel env of SelectError eintr \<Rightarrow> True
      | Selected nfds rset \<Rightarrow> rset \<subseteq> watched s \<and> nfds = int (card rset)) \<and>
     acc env \<notin> used \<and> (\<forall>fd \<in> ready (sel env). fits (rd env fd))"

definition accepted :: "server \<Rightarrow> round_env \<Rightarrow> int list" where
  "accepted s env = (if mListenFd s \<in> ready (sel env) \<and> acc env > 0 then [acc env] else [])"

definition quitting :: "round_env \<Rightarrow> int \<Rightarrow> bool" where
  "quitting env fd \<longleftrightarrow> fd \<in> ready (sel env) \<and>
     (case rd env fd of ReadErr \<Rightarrow> False | ReadBytes bs \<Rightarrow> bs = [] \<or> take 4 (cstr bs) = ''quit'')"

definition client_events :: "server \<Rightarrow> round_env \<Rightarrow> int \<Rightarrow> io_event list" where
  "client_events s env fd =
     snd (post_spec (mXmlData s) \<lparr>mConnID = fd\<rparr> (ready (sel env)) (rd env fd) (wr env fd))"

definition round_events :: "server \<Rightarrow> round_env \<Rightarrow> io_event list" where
  "round_events s env =
     (if mWakeupRead s \<in> ready (sel env) then [IoRead (mWakeupRead s) 4] else []) @
     (if mListenFd s \<in> ready (sel env)
      then IoAccept (acc env) # (if acc env > 0 then [IoNonblock (acc env)] else []) else []) @
     concat (map (client_events s env) (conn_ids s)) @
     concat (map (\<lambda>q. [IoDelete q, IoClose q]) (filter (quitting env) (conn_ids s)))"

lemma client_is_id [simp]: "\<lparr>mConnID = mConnID c\<rparr> = (c :: connector_base)"
  by simp

lemma post_spec_quit:
  "fst (post_spec db c (ready (sel env)) (rd env (mConnID c)) w) = RESULT_QUIT \<longleftrightarrow> quitting env (mConnID c)"
  by (auto simp: post_spec_def quitting_def result_defs Let_def split: read_result.split)

lemma client_events_idle: "fd \<notin> ready (sel env) \<Longrightarrow> client_events s env fd = []"
  by (simp add: client_events_def post_spec_def)

lemma not_quitting_idle: "fd \<notin> ready (sel env) \<Longrightarrow> \<not> quitting env fd"
  by (simp add: quitting_def)

lemma select_args_watched:
  assumes "srv_ok s"
  shows "\<exists>m. select_args s = Inr (m, Some (watched s))"
proof -
  have "\<forall>c \<in> set (mConnectors s). 0 < mConnID c \<and> fd_in_range (mConnID c)"
    using assms by (auto simp: srv_ok_def watched_def conn_ids_def)
  from client.pre_loop_watches [OF this] show ?thesis
    using assms by (auto simp: select_args_def FD_SET_def srv_ok_def watched_def conn_ids_def
        insert_commute)
qed

lemma accept_client_spec:
  "acc env \<notin> set (conn_ids s) \<Longrightarrow> accept_client (acc env) s =
     (if acc env > 0 then add_conn (acc env) s else s,
      IoAccept (acc env) # (if acc env > 0 then [IoNonblock (acc env)] else []))"
  by (simp add: accept_client_def add_conn_def)

lemma concat_map_idle: "(\<And>x. x \<in> set xs \<Longrightarrow> f x = []) \<Longrightarrow> concat (map f xs) = []"
  by (induction xs) auto

lemma round_idle:
  assumes "ready (sel env) \<inter> set xs = {}"
  shows "filter (quitting env) xs = []" "filter (\<lambda>fd. \<not> quitting env fd) xs = xs"
    "concat (map (client_events s env) xs) = []"
proof -
  have idle: "fd \<notin> ready (sel env)" if "fd \<in> set xs" for fd using assms that by blast
  then show "filter (quitting env) xs = []" "filter (\<lambda>fd. \<not> quitting env fd) xs = xs"
    by (auto simp: filter_empty_conv filter_id_conv quitting_def)
  show "concat (map (client_events s env) xs) = []"
    by (rule concat_map_idle) (rule client_events_idle, rule idle)
qed

lemma serve_round:
  assumes ok: "distinct (conn_ids t)" "\<forall>fd \<in> set (conn_ids t). fd_in_range fd"
    and len: "\<forall>fd \<in> ready (sel env). fits (rd env fd)"
  shows "fbind (post_loop getConnID
      (\<lambda>c. postSelect (mXmlData t) c (ready (sel env)) (rd env (mConnID c)) (wr env (mConnID c)))
      (mConnectors t) [] False)
      (\<lambda>(quitConns, rQuit, evs3). let (s2, evs4) = (if rQuit then quit_loop quitConns t else (t, []))
         in Inr (LoopAgain, s2, evs @ evs3 @ evs4)) =
    Inr (LoopAgain, fold del_conn (filter (quitting env) (conn_ids t)) t,
      evs @ concat (map (client_events t env) (conn_ids t)) @
      concat (map (\<lambda>q. [IoDelete q, IoClose q]) (filter (quitting env) (conn_ids t))))"
proof -
  let ?f = "\<lambda>c. post_spec (mXmlData t) c (ready (sel env)) (rd env (mConnID c)) (wr env (mConnID c))"
  have post: "\<forall>c \<in> set (mConnectors t). postSelect (mXmlData t) c (ready (sel env))
      (rd env (mConnID c)) (wr env (mConnID c)) = Inr (?f c)"
    using ok(2) len by (auto simp: conn_ids_def intro!: postSelect_post_spec)
  have q: "map getConnID (filter (\<lambda>c. fst (?f c) = RESULT_QUIT) (mConnectors t)) =
      filter (quitting env) (conn_ids t)"
    by (simp add: post_spec_quit conn_ids_def filter_map comp_def getConnID_def [abs_def])
  have e: "concat (map (snd \<circ> ?f) (mConnectors t)) = concat (map (client_events t env) (conn_ids t))"
    by (simp add: conn_ids_def client_events_def comp_def)
  have b: "(\<exists>c \<in> set (mConnectors t). fst (?f c) = RESULT_QUIT) \<longleftrightarrow> filter (quitting env) (conn_ids t) \<noteq> []"
    by (auto simp: post_spec_quit conn_ids_def filter_empty_conv)
  have l: "quit_loop (filter (quitting env) (conn_ids t)) t =
      (fold del_conn (filter (quitting env) (conn_ids t)) t,
       concat (map (\<lambda>q. [IoDelete q, IoClose q]) (filter (quitting env) (conn_ids t))))"
    using ok(1) quit_loop_state quit_loop_events
    by (intro prod_eqI) (auto simp: distinct_filter)
  show ?thesis
    by (simp add: post_loop_total [OF post] q e b l)
qed

definition round_result :: "server \<Rightarrow> round_env \<Rightarrow> server" where
  "round_result s env =
     fold del_conn (filter (quitting env) (conn_ids s)) (fold add_conn (accepted s env) s)"

definition in_range_accept :: "server \<Rightarrow> round_env \<Rightarrow> bool" where
  "in_range_accept s env \<longleftrightarrow> list_all fd_in_range (accepted s env)"

lemma conn_ids_accepted:
  "acc env \<notin> set (conn_ids s) \<Longrightarrow> conn_ids (fold add_conn (accepted s env) s) = conn_ids s @ accepted s env"
  by (simp add: accepted_def conns.ids_add)

lemma frame_accepted [simp]:
  "mXmlData (fold add_conn (accepted s env) s) = mXmlData s"
  "mListenFd (fold add_conn (accepted s env) s) = mListenFd s"
  "mWakeupRead (fold add_conn (accepted s env) s) = mWakeupRead s"
  "mWakeupWrite (fold add_conn (accepted s env) s) = mWakeupWrite s"
  by (simp_all add: accepted_def)

lemma client_events_db: "mXmlData t = mXmlData s \<Longrightarrow> client_events t env = client_events s env"
  by (simp add: client_events_def fun_eq_iff)

lemma card_one_only: "card A = 1 \<Longrightarrow> x \<in> A \<Longrightarrow> A = {x}"
  by (metis card_1_singletonE singletonD)

lemma loop_round_selected:
  assumes ok: "srv_ok s" and env: "env_ok used s env" and used: "watched s \<subseteq> used"
    and sel: "sel env = Selected nfds rset" and r: "in_range_accept s env"
  shows "loop_round env s = Inr (LoopAgain, round_result s env, round_events s env)"
proof -
  let ?w = "mWakeupRead s" and ?l = "mListenFd s" and ?t = "fold add_conn (accepted s env) s"
  obtain m where args: "select_args s = Inr (m, Some (watched s))"
    using select_args_watched [OF ok] by blast
  have range: "fd_in_range ?w" "fd_in_range ?l" and neq: "?w \<noteq> ?l"
    using ok by (auto simp: srv_ok_def watched_def)
  have rset: "ready (sel env) = rset" "rset \<subseteq> watched s" "nfds = int (card rset)"
    and a: "acc env \<notin> watched s" and len: "\<forall>fd \<in> ready (sel env). fits (rd env fd)"
    using env used sel by (auto simp: env_ok_def)
  have ids: "acc env \<notin> set (conn_ids s)" using a by (simp add: watched_def)
  have nids: "?w \<notin> set (conn_ids s)" "?l \<notin> set (conn_ids s)" using ok by (auto simp: srv_ok_def)
  have tids: "conn_ids ?t = conn_ids s @ accepted s env" by (rule conn_ids_accepted [OF ids])
  have idle: "ready (sel env) \<inter> set (accepted s env) = {}"
    using rset a by (auto simp: accepted_def)
  have acc: "(if ?l \<in> rset then accept_client (acc env) s else (s, [])) =
      (?t, if ?l \<in> rset then IoAccept (acc env) # (if acc env > 0 then [IoNonblock (acc env)] else []) else [])"
    using rset(1) by (simp add: accept_client_spec [OF ids] accepted_def)
  show ?thesis
  proof (cases "nfds = 1 \<and> (?w \<in> rset \<or> ?l \<in> rset)")
    case True
    then have one: "rset = {?w} \<or> rset = {?l}" using rset(3) card_one_only [of rset] by auto
    then have no_client: "ready (sel env) \<inter> set (conn_ids s) = {}" using rset(1) nids by auto
    show ?thesis
      using one round_idle(1,2) [OF no_client] round_idle(3) [OF no_client, of s] True range neq args sel acc rset(1)
      by (auto simp: loop_round_def FD_ISSET_def round_result_def round_events_def accepted_def)
  next
    case False
    then have not_alone: "(?w \<in> rset \<and> nfds = 1) = False" "(?l \<in> rset \<and> nfds = 1) = False" by auto
    define t where "t = ?t"
    define e1 where "e1 = (if ?w \<in> rset then [IoRead ?w 4] else [])"
    define e2 where "e2 = (if ?l \<in> rset
      then IoAccept (acc env) # (if acc env > 0 then [IoNonblock (acc env)] else []) else [])"
    have d: "distinct (conn_ids t)" "\<forall>fd \<in> set (conn_ids t). fd_in_range fd"
      using ok ids r tids by (auto simp: t_def srv_ok_def watched_def accepted_def in_range_accept_def)
    have quits: "filter (quitting env) (conn_ids t) = filter (quitting env) (conn_ids s)"
      using round_idle(1) [OF idle] tids by (simp add: t_def)
    have evs: "concat (map (client_events t env) (conn_ids t)) =
        concat (map (client_events s env) (conn_ids s))"
      using round_idle(3) [OF idle, of s] tids
      by (simp add: t_def client_events_db [OF frame_accepted(1)])
    have "loop_round env s = fbind (post_loop getConnID
        (\<lambda>c. postSelect (mXmlData t) c (ready (sel env)) (rd env (mConnID c)) (wr env (mConnID c)))
        (mConnectors t) [] False)
        (\<lambda>(quitConns, rQuit, evs3). let (s2, evs4) = (if rQuit then quit_loop quitConns t else (t, []))
           in Inr (LoopAgain, s2, (e1 @ e2) @ evs3 @ evs4))"
      unfolding loop_round_def args sel
      by (simp only: fbind_simps prod.case select_result.case FD_ISSET_def range if_True Let_def
          acc [folded t_def e2_def] not_alone if_False e1_def [symmetric] ready.simps append_assoc)
    also have "\<dots> = Inr (LoopAgain, fold del_conn (filter (quitting env) (conn_ids s)) t,
        (e1 @ e2) @ concat (map (client_events s env) (conn_ids s)) @
        concat (map (\<lambda>q. [IoDelete q, IoClose q]) (filter (quitting env) (conn_ids s))))"
      unfolding serve_round [OF d len] quits evs ..
    finally show ?thesis
      by (simp add: round_result_def round_events_def t_def e1_def e2_def sel)
  qed
qed

section \<open>The server and the descriptors of its process\<close>

text \<open>
  The loop runs in an environment that keeps the open descriptors of the process. A step is one
  turn of the loop with any answers of the system that keep its promises and give a descriptor
  below \<open>FD_SETSIZE\<close> (the descriptor limit of the process).
\<close>

record net =
  nsrv :: server
  open_fds :: "int set"

fun apply_io :: "io_event \<Rightarrow> int set \<Rightarrow> int set" where
  "apply_io (IoAccept fd) fds = (if 0 \<le> fd then insert fd fds else fds)"
| "apply_io (IoClose fd) fds = fds - {fd}"
| "apply_io e fds = fds"

inductive srv_step :: "net \<Rightarrow> net \<Rightarrow> bool" where
  turn: "env_ok (open_fds n) (nsrv n) env \<Longrightarrow> acc env < FD_SETSIZE \<Longrightarrow>
     loop_round env (nsrv n) = Inr (LoopAgain, s', evs) \<Longrightarrow>
     srv_step n \<lparr>nsrv = s', open_fds = fold apply_io evs (open_fds n)\<rparr>"

inductive_cases srv_stepE: "srv_step n m"

definition srv_init :: "int set \<Rightarrow> xmldb \<Rightarrow> net \<Rightarrow> bool" where
  "srv_init base db n \<longleftrightarrow> mConnectors (nsrv n) = [] \<and> mXmlData (nsrv n) = db \<and> open_fds n = base \<and>
     {0, mWakeupRead (nsrv n), mListenFd (nsrv n)} \<subseteq> base \<and>
     mWakeupRead (nsrv n) \<noteq> mListenFd (nsrv n) \<and>
     fd_in_range (mWakeupRead (nsrv n)) \<and> fd_in_range (mListenFd (nsrv n))"

definition srv_inv :: "int set \<Rightarrow> xmldb \<Rightarrow> net \<Rightarrow> bool" where
  "srv_inv base db n \<longleftrightarrow> srv_ok (nsrv n) \<and> mXmlData (nsrv n) = db \<and>
     open_fds n = base \<union> set (conn_ids (nsrv n)) \<and> base \<inter> set (conn_ids (nsrv n)) = {} \<and>
     {0, mWakeupRead (nsrv n), mListenFd (nsrv n)} \<subseteq> base"

lemma srv_inv_init: "srv_init base db n \<Longrightarrow> srv_inv base db n"
  by (auto simp: srv_init_def srv_inv_def srv_ok_def watched_def conn_ids_def)

lemma fold_apply_io_transfer: "\<forall>e \<in> set evs. is_transfer e \<Longrightarrow> fold apply_io evs fds = fds"
proof (induction evs)
  case (Cons e evs)
  then show ?case by (cases e) auto
qed simp

lemma fold_apply_io_close:
  "fold apply_io (concat (map (\<lambda>q. [IoDelete q, IoClose q]) qs)) fds = fds - set qs"
  by (induction qs arbitrary: fds) auto

lemma client_events_cases:
  "e \<in> set (client_events s env fd) \<Longrightarrow> fd \<in> ready (sel env) \<and>
     (e = IoRead fd 65 \<or>
      (\<exists>req. rd env fd = ReadBytes req \<and> e = IoWrite fd (reply_text (answer (mXmlData s) (cstr (take 65 req))))))"
  by (auto simp: client_events_def post_spec_def Let_def split: if_splits read_result.splits)

lemma round_events_fds:
  assumes "acc env \<noteq> 0"
  shows "fold apply_io (round_events s env) fds =
    (fds \<union> set (accepted s env)) - set (filter (quitting env) (conn_ids s))"
proof -
  have t: "\<forall>e \<in> set (concat (map (client_events s env) (conn_ids s))). is_transfer e"
    using client_events_cases by fastforce
  show ?thesis
    using assms
    by (auto simp: round_events_def fold_apply_io_transfer [OF t] fold_apply_io_close accepted_def)
qed

lemma round_result_ids:
  assumes "srv_ok s" and "acc env \<notin> watched s" and "ready (sel env) \<subseteq> watched s"
  shows "conn_ids (round_result s env) =
    filter (\<lambda>fd. \<not> quitting env fd) (conn_ids s @ accepted s env)"
proof -
  have a: "acc env \<notin> set (conn_ids s)" using assms(2) by (simp add: watched_def)
  have q: "\<not> quitting env (acc env)" using assms(2,3) by (auto simp: quitting_def)
  have d: "distinct (conn_ids s)" using assms(1) by (simp add: srv_ok_def)
  then have "distinct (conn_ids (fold add_conn (accepted s env) s))"
    by (simp add: accepted_def conns.distinct_add)
  from conns.ids_del_many [OF this] show ?thesis
    using q a by (auto simp: round_result_def accepted_def conns.ids_add intro: filter_cong)
qed

lemma frame_round_result [simp]:
  "mXmlData (round_result s env) = mXmlData s" "mListenFd (round_result s env) = mListenFd s"
  "mWakeupRead (round_result s env) = mWakeupRead s" "mWakeupWrite (round_result s env) = mWakeupWrite s"
  by (simp_all add: round_result_def)

lemma srv_inv_facts:
  assumes "srv_inv base db n" and "env_ok (open_fds n) (nsrv n) env"
  shows "watched (nsrv n) \<subseteq> open_fds n" and "acc env \<notin> watched (nsrv n)" and "acc env \<noteq> 0"
    and "ready (sel env) \<subseteq> watched (nsrv n)"
proof -
  show w: "watched (nsrv n) \<subseteq> open_fds n" using assms(1) by (auto simp: srv_inv_def watched_def)
  show "acc env \<notin> watched (nsrv n)" "acc env \<noteq> 0"
    using assms w by (auto simp: env_ok_def srv_inv_def)
  show "ready (sel env) \<subseteq> watched (nsrv n)"
    using assms(2) by (cases "sel env") (auto simp: env_ok_def)
qed

text \<open>In an invariant state every turn is the specified one.\<close>

lemma loop_round_inv:
  assumes inv: "srv_inv base db n" and env: "env_ok (open_fds n) (nsrv n) env"
    and lim: "acc env < FD_SETSIZE"
  shows "loop_round env (nsrv n) =
    (case sel env of
       SelectError eintr \<Rightarrow> Inr (if eintr then LoopAgain else LoopReturn, nsrv n, [])
     | Selected nfds rset \<Rightarrow> Inr (LoopAgain, round_result (nsrv n) env, round_events (nsrv n) env))"
proof (cases "sel env")
  case (SelectError eintr)
  moreover have "srv_ok (nsrv n)" using inv by (simp add: srv_inv_def)
  from select_args_watched [OF this] obtain m where
    "select_args (nsrv n) = Inr (m, Some (watched (nsrv n)))" by blast
  ultimately show ?thesis by (simp add: loop_round_def)
next
  case (Selected nfds rset)
  have "srv_ok (nsrv n)" using inv by (simp add: srv_inv_def)
  moreover have "in_range_accept (nsrv n) env"
    using lim by (simp add: in_range_accept_def accepted_def fd_in_range_def)
  ultimately show ?thesis
    using loop_round_selected [OF _ env _ Selected] srv_inv_facts(1) [OF inv env] Selected by simp
qed

lemma open_after:
  assumes "O' = B \<union> I" and "B \<inter> I = {}" and "S' = {x \<in> I \<union> A. \<not> Q x}" and "\<forall>x \<in> A. \<not> Q x"
    and "R = {x \<in> I. Q x}"
  shows "(O' \<union> A) - R = B \<union> S'"
  using assms by blast

lemma srv_inv_step:
  assumes inv: "srv_inv base db n" and step: "srv_step n m"
  shows "srv_inv base db m"
proof -
  from step obtain env s' evs where m: "m = \<lparr>nsrv = s', open_fds = fold apply_io evs (open_fds n)\<rparr>"
    and env: "env_ok (open_fds n) (nsrv n) env" and lim: "acc env < FD_SETSIZE"
    and rnd: "loop_round env (nsrv n) = Inr (LoopAgain, s', evs)"
    by (blast elim: srv_stepE)
  note facts = srv_inv_facts [OF inv env]
  show ?thesis
  proof (cases "sel env")
    case (SelectError eintr)
    then show ?thesis using loop_round_inv [OF inv env lim] rnd inv
      by (simp add: m srv_inv_def split: if_splits)
  next
    case (Selected nfds rset)
    then have s': "s' = round_result (nsrv n) env" "evs = round_events (nsrv n) env"
      using loop_round_inv [OF inv env lim] rnd by auto
    have ok: "srv_ok (nsrv n)" using inv by (simp add: srv_inv_def)
    note ids = round_result_ids [OF ok facts(2,4)]
    have a: "\<forall>fd \<in> set (accepted (nsrv n) env). fd = acc env \<and> 0 < fd \<and> fd_in_range fd"
      using lim by (auto simp: accepted_def fd_in_range_def)
    have fresh: "acc env \<notin> open_fds n" using env by (simp add: env_ok_def)
    have q: "\<not> quitting env fd" if "fd \<in> set (accepted (nsrv n) env)" for fd
      using that a facts(2,4) by (auto simp: quitting_def)
    have d: "distinct (conn_ids (nsrv n) @ accepted (nsrv n) env)"
      using ok facts(2) by (auto simp: srv_ok_def watched_def accepted_def)
    have sub: "set (conn_ids s') \<subseteq> set (conn_ids (nsrv n)) \<union> set (accepted (nsrv n) env)"
      using ids by (auto simp: s')
    have new: "fd \<noteq> mWakeupRead (nsrv n)" "fd \<noteq> mListenFd (nsrv n)" "fd \<notin> base"
      if "fd \<in> set (accepted (nsrv n) env)" for fd
      using that a facts(2) fresh inv by (auto simp: watched_def srv_inv_def)
    have frame: "mWakeupRead s' = mWakeupRead (nsrv n)" "mListenFd s' = mListenFd (nsrv n)"
      "mXmlData s' = mXmlData (nsrv n)" by (simp_all add: s')
    have "distinct (conn_ids s')" unfolding s' ids by (rule distinct_filter [OF d])
    moreover have "\<forall>fd \<in> set (conn_ids s'). 0 < fd \<and> fd_in_range fd \<and>
        fd \<noteq> mWakeupRead (nsrv n) \<and> fd \<noteq> mListenFd (nsrv n)"
      using ok sub new a by (auto simp: srv_ok_def watched_def)
    ultimately have ok': "srv_ok s'"
      using ok by (auto simp: srv_ok_def watched_def frame)
    have "fold apply_io evs (open_fds n) =
        open_fds n \<union> set (accepted (nsrv n) env) - set (filter (quitting env) (conn_ids (nsrv n)))"
      using round_events_fds [OF facts(3)] s' by simp
    also have "\<dots> = base \<union> set (conn_ids s')"
    proof (rule open_after)
      show "open_fds n = base \<union> set (conn_ids (nsrv n))" "base \<inter> set (conn_ids (nsrv n)) = {}"
        using inv by (simp_all add: srv_inv_def)
      show "set (conn_ids s') = {fd \<in> set (conn_ids (nsrv n)) \<union> set (accepted (nsrv n) env). \<not> quitting env fd}"
        using ids by (auto simp: s')
    qed (use q in auto)
    finally have fds: "fold apply_io evs (open_fds n) = base \<union> set (conn_ids s')" .
    have "base \<inter> set (conn_ids (nsrv n)) = {}" using inv by (simp add: srv_inv_def)
    then have "base \<inter> set (conn_ids s') = {}" using sub new(3) by blast
    then show ?thesis using inv ok' fds frame by (simp add: srv_inv_def m)
  qed
qed

interpretation serving: inductive_invariant "srv_init base db" srv_step "srv_inv base db" for base db
  by unfold_locales (auto intro: srv_inv_init srv_inv_step)

lemma round_events_writes:
  "IoWrite fd bs \<in> set (round_events s env) \<Longrightarrow> fd \<in> set (conn_ids s) \<and> fd \<in> ready (sel env) \<and>
     (\<exists>req. rd env fd = ReadBytes req \<and> bs = reply_text (answer (mXmlData s) (cstr (take 65 req))))"
  by (auto simp: round_events_def dest: client_events_cases split: if_splits)

lemma round_events_closes:
  "IoClose fd \<in> set (round_events s env) \<Longrightarrow> fd \<in> set (conn_ids s) \<and> quitting env fd"
  by (auto simp: round_events_def dest: client_events_cases split: if_splits)

lemma run_setup_init:
  assumes "run_setup env s = (Serving, s', evs)" and "mConnectors s = []"
    and "{0, mWakeupRead s', mListenFd s'} \<subseteq> base" and "mWakeupRead s' \<noteq> mListenFd s'"
    and "fd_in_range (mWakeupRead s')" and "fd_in_range (mListenFd s')"
  shows "srv_init base (mXmlData s) \<lparr>nsrv = s', open_fds = base\<rparr>"
  using assms by (auto simp: run_setup_def srv_init_def Let_def split: if_splits option.splits)

text \<open>The promises of \<open>env_ok\<close> over the turns of a run.\<close>

fun turns_ok :: "round_env list \<Rightarrow> net \<Rightarrow> bool" where
  "turns_ok [] n = True"
| "turns_ok (env # envs) n =
     (env_ok (open_fds n) (nsrv n) env \<and> acc env < FD_SETSIZE \<and>
      (case loop_round env (nsrv n) of
         Inr (LoopAgain, s', evs) \<Rightarrow> turns_ok envs \<lparr>nsrv = s', open_fds = fold apply_io evs (open_fds n)\<rparr>
       | _ \<Rightarrow> True))"

lemma run_loop_defined:
  "srv_inv base db n \<Longrightarrow> turns_ok envs n \<Longrightarrow>
     \<exists>ctl s' evs. run_loop envs (nsrv n) = Inr (ctl, s', evs) \<and>
       (\<forall>fd out. IoWrite fd out \<in> set evs \<longrightarrow> (\<exists>msg. out = reply_text (answer db msg)))"
proof (induction envs arbitrary: n)
  case (Cons env envs)
  then have env: "env_ok (open_fds n) (nsrv n) env" and lim: "acc env < FD_SETSIZE" by simp_all
  have db: "mXmlData (nsrv n) = db" using Cons.prems(1) by (simp add: srv_inv_def)
  note turn = loop_round_inv [OF Cons.prems(1) env lim]
  show ?case
  proof (cases "\<exists>s' evs. loop_round env (nsrv n) = Inr (LoopAgain, s', evs)")
    case False
    then show ?thesis using turn by (auto split: select_result.splits if_splits)
  next
    case True
    then obtain s' evs where l: "loop_round env (nsrv n) = Inr (LoopAgain, s', evs)" by blast
    let ?m = "\<lparr>nsrv = s', open_fds = fold apply_io evs (open_fds n)\<rparr>"
    have inv: "srv_inv base db ?m" by (rule srv_inv_step [OF Cons.prems(1) srv_step.turn [OF env lim l]])
    have "turns_ok envs ?m" using Cons.prems(2) l by simp
    from Cons.IH [OF inv this] obtain ctl s2 evs2 where r: "run_loop envs s' = Inr (ctl, s2, evs2)"
      and w: "\<forall>fd out. IoWrite fd out \<in> set evs2 \<longrightarrow> (\<exists>msg. out = reply_text (answer db msg))" by auto
    have "evs = [] \<or> evs = round_events (nsrv n) env"
      using turn l by (auto split: select_result.splits)
    then have "\<forall>fd out. IoWrite fd out \<in> set evs \<longrightarrow> (\<exists>msg. out = reply_text (answer db msg))"
      using round_events_writes db by fastforce
    with w l r show ?thesis by auto
  qed
qed simp

section \<open>The events of one connection\<close>

definition events_of :: "int \<Rightarrow> io_event list \<Rightarrow> io_event list" where
  "events_of fd evs = filter (\<lambda>e. io_fd e = fd) evs"

lemma events_of_append [simp]: "events_of fd (xs @ ys) = events_of fd xs @ events_of fd ys"
  by (simp add: events_of_def)

lemma events_of_none: "\<forall>e \<in> set evs. io_fd e \<noteq> fd \<Longrightarrow> events_of fd evs = []"
  by (simp add: events_of_def filter_empty_conv)

lemma events_of_all: "\<forall>e \<in> set evs. io_fd e = fd \<Longrightarrow> events_of fd evs = evs"
  by (simp add: events_of_def filter_id_conv)

lemma client_events_own: "e \<in> set (client_events s env fd) \<Longrightarrow> io_fd e = fd"
  by (auto dest: client_events_cases)

lemma events_of_clients:
  "distinct fds \<Longrightarrow> (\<And>x e. e \<in> set (f x) \<Longrightarrow> io_fd e = x) \<Longrightarrow>
     events_of fd (concat (map f fds)) = (if fd \<in> set fds then f fd else [])"
proof (induction fds)
  case Nil
  then show ?case by (simp add: events_of_def)
next
  case (Cons x fds)
  have own: "events_of fd (f x) = (if x = fd then f fd else [])"
    using Cons.prems(2) by (cases "x = fd") (auto intro!: events_of_all events_of_none)
  have "events_of fd (concat (map f fds)) = (if fd \<in> set fds then f fd else [])"
    by (rule Cons.IH) (use Cons.prems in auto)
  with own Cons.prems(1) show ?case by (cases "x = fd") simp_all
qed

lemma events_of_round:
  assumes ok: "srv_ok s" and a: "acc env \<notin> watched s" and fd: "fd \<in> set (conn_ids s)"
  shows "events_of fd (round_events s env) =
    client_events s env fd @ (if quitting env fd then [IoDelete fd, IoClose fd] else [])"
proof -
  have d: "distinct (conn_ids s)" "distinct (filter (quitting env) (conn_ids s))"
    and n: "mWakeupRead s \<noteq> fd" "acc env \<noteq> fd"
    using ok a fd by (auto simp: srv_ok_def watched_def)
  have c: "events_of fd (concat (map (client_events s env) (conn_ids s))) = client_events s env fd"
    using events_of_clients [OF d(1), of "client_events s env" fd] client_events_own fd by simp
  have q: "events_of fd (concat (map (\<lambda>q. [IoDelete q, IoClose q]) (filter (quitting env) (conn_ids s)))) =
      (if quitting env fd then [IoDelete fd, IoClose fd] else [])"
    by (subst events_of_clients [OF d(2)]) (use fd in auto)
  have w: "events_of fd (if mWakeupRead s \<in> ready (sel env) then [IoRead (mWakeupRead s) 4] else []) = []"
    "events_of fd (if mListenFd s \<in> ready (sel env)
      then IoAccept (acc env) # (if acc env > 0 then [IoNonblock (acc env)] else []) else []) = []"
    using n by (simp_all add: events_of_def)
  show ?thesis by (simp add: round_events_def w c q)
qed

section \<open>What one turn closes\<close>

lemma count_concat_distinct:
  "distinct qs \<Longrightarrow> (\<And>q. count_list (f q) x = (if q = k then c else 0)) \<Longrightarrow>
     count_list (concat (map f qs)) x = (if k \<in> set qs then c else 0)"
  by (induction qs) auto

lemma round_events_count:
  assumes "distinct (conn_ids s)"
  shows "count_list (round_events s env) (IoClose fd) =
      (if fd \<in> set (conn_ids s) \<and> quitting env fd then 1 else 0)"
    and "count_list (round_events s env) (IoDelete fd) =
      (if fd \<in> set (conn_ids s) \<and> quitting env fd then 1 else 0)"
proof -
  have d: "distinct (filter (quitting env) (conn_ids s))" using assms by simp
  have "\<forall>e \<in> set (concat (map (client_events s env) (conn_ids s))). is_transfer e"
    using client_events_cases by fastforce
  then have c: "count_list (concat (map (client_events s env) (conn_ids s))) (IoClose fd) = 0"
    "count_list (concat (map (client_events s env) (conn_ids s))) (IoDelete fd) = 0"
    by (metis count_notin is_transfer.simps)+
  show "count_list (round_events s env) (IoClose fd) =
      (if fd \<in> set (conn_ids s) \<and> quitting env fd then 1 else 0)"
    using count_concat_distinct [OF d, of "\<lambda>q. [IoDelete q, IoClose q]" "IoClose fd" fd 1] c
    by (simp add: round_events_def)
  show "count_list (round_events s env) (IoDelete fd) =
      (if fd \<in> set (conn_ids s) \<and> quitting env fd then 1 else 0)"
    using count_concat_distinct [OF d, of "\<lambda>q. [IoDelete q, IoClose q]" "IoDelete fd" fd 1] c
    by (simp add: round_events_def)
qed

lemma turn_closes:
  assumes inv: "srv_inv base db n" and env: "env_ok (open_fds n) (nsrv n) env"
    and lim: "acc env < FD_SETSIZE" and rnd: "loop_round env (nsrv n) = Inr (ctl, s', evs)"
  shows "count_list evs (IoClose fd) =
      (if fd \<in> set (conn_ids (nsrv n)) \<and> fd \<notin> set (conn_ids s') then 1 else 0) \<and>
    count_list evs (IoDelete fd) = count_list evs (IoClose fd)"
proof (cases "sel env")
  case (SelectError eintr)
  then show ?thesis using loop_round_inv [OF inv env lim] rnd by auto
next
  case (Selected nfds rset)
  have ok: "srv_ok (nsrv n)" using inv by (simp add: srv_inv_def)
  then have d: "distinct (conn_ids (nsrv n))" by (simp add: srv_ok_def)
  have s': "s' = round_result (nsrv n) env" "evs = round_events (nsrv n) env"
    using loop_round_inv [OF inv env lim] rnd Selected by auto
  show ?thesis
    using round_result_ids [OF ok srv_inv_facts(2,4) [OF inv env]] round_events_count [OF d, of env fd]
    by (simp add: s')
qed

section \<open>Properties\<close>

definition demo_server :: server where
  "demo_server = \<lparr>mWakeupRead = 3, mWakeupWrite = 4, mListenFd = 5, mConnectors = [], mXmlData = shipped_db\<rparr>"

definition demo_net :: net where
  "demo_net = \<lparr>nsrv = demo_server, open_fds = {0, 3, 4, 5}\<rparr>"

definition demo_accept :: round_env where
  "demo_accept = \<lparr>sel = Selected 1 {5}, acc = 7, rd = (\<lambda>fd. ReadErr), wr = (\<lambda>fd. 0)\<rparr>"

definition demo_net1 :: net where
  "demo_net1 = \<lparr>nsrv = demo_server\<lparr>mConnectors := [\<lparr>mConnID = 7\<rparr>]\<rparr>, open_fds = {0, 3, 4, 5, 7}\<rparr>"

lemma demo_init: "srv_init {0, 3, 4, 5} shipped_db demo_net"
  by (simp add: srv_init_def demo_net_def demo_server_def fd_in_range_def FD_SETSIZE_def)

lemma demo_step: "srv_step demo_net demo_net1"
proof -
  have inv: "srv_inv {0, 3, 4, 5} shipped_db demo_net" by (rule srv_inv_init [OF demo_init])
  have env: "env_ok (open_fds demo_net) (nsrv demo_net) demo_accept"
    by (auto simp: env_ok_def demo_net_def demo_server_def demo_accept_def watched_def conn_ids_def)
  have lim: "acc demo_accept < FD_SETSIZE" by (simp add: demo_accept_def FD_SETSIZE_def)
  have r: "round_result (nsrv demo_net) demo_accept = nsrv demo_net1"
    by (simp add: round_result_def demo_net_def demo_net1_def demo_server_def demo_accept_def
        accepted_def conn_ids_def add_conn_def addConnector_def new_ClientConnector_def)
  have e: "fold apply_io (round_events (nsrv demo_net) demo_accept) (open_fds demo_net) = open_fds demo_net1"
    by (auto simp: round_events_def demo_net_def demo_net1_def demo_server_def demo_accept_def
        conn_ids_def)
  have "loop_round demo_accept (nsrv demo_net) =
      Inr (LoopAgain, nsrv demo_net1, round_events (nsrv demo_net) demo_accept)"
    using loop_round_inv [OF inv env lim] r by (simp add: demo_accept_def)
  from srv_step.turn [OF env lim this]
  have "srv_step demo_net \<lparr>nsrv = nsrv demo_net1, open_fds = open_fds demo_net1\<rparr>"
    unfolding e .
  moreover have "\<lparr>nsrv = nsrv demo_net1, open_fds = open_fds demo_net1\<rparr> = demo_net1" by simp
  ultimately show ?thesis by (simp only:)
qed

lemma demo_reach: "reach (srv_init {0, 3, 4, 5} shipped_db) srv_step demo_net1"
proof -
  have "reach (srv_init {0, 3, 4, 5} shipped_db) srv_step demo_net"
    by (rule reach_init) (rule demo_init)
  then show ?thesis by (rule reach_step) (rule demo_step)
qed

definition demo_quit :: round_env where
  "demo_quit = \<lparr>sel = Selected 1 {7}, acc = -1, rd = (\<lambda>fd. ReadBytes ''quit now''), wr = (\<lambda>fd. 0)\<rparr>"

lemma demo_quit_ok:
  "env_ok (open_fds demo_net1) (nsrv demo_net1) demo_quit" "acc demo_quit < FD_SETSIZE"
  by (auto simp: env_ok_def demo_quit_def demo_net1_def demo_server_def watched_def conn_ids_def
      BUFF_SIZE_def FD_SETSIZE_def)

lemma demo_quit_quits: "quitting demo_quit 7"
proof -
  have "take 4 (cstr ''quit now'') = ''quit''" by code_simp
  then show ?thesis by (simp add: quitting_def demo_quit_def)
qed

text \<open>C1: in every state the loop can reach, whatever the system and the clients do within their
  promises, the open descriptors are exactly those open before the loop and one per connection,
  no two connections share a descriptor, and the database is the one the server started with.
  And in every turn from such a state a descriptor is closed, and a connection object deleted,
  exactly once when its connection leaves the table in that turn, and not at all otherwise. So
  no accepted descriptor is lost, none is closed twice and none of the others is closed.\<close>

theorem server_no_fd_leak:
  assumes "reach (srv_init base db) srv_step n"
  shows "open_fds n = base \<union> set (conn_ids (nsrv n)) \<and> base \<inter> set (conn_ids (nsrv n)) = {} \<and>
    distinct (conn_ids (nsrv n)) \<and> mXmlData (nsrv n) = db \<and>
    (\<forall>env ctl s' evs fd.
       env_ok (open_fds n) (nsrv n) env \<longrightarrow> acc env < FD_SETSIZE \<longrightarrow>
       loop_round env (nsrv n) = Inr (ctl, s', evs) \<longrightarrow>
       count_list evs (IoClose fd) =
         (if fd \<in> set (conn_ids (nsrv n)) \<and> fd \<notin> set (conn_ids s') then 1 else 0) \<and>
       count_list evs (IoDelete fd) = count_list evs (IoClose fd))"
proof -
  have inv: "srv_inv base db n" by (rule serving.reach_inv [OF assms])
  show ?thesis using inv turn_closes [OF inv] by (auto simp: srv_inv_def srv_ok_def)
qed

theorem server_no_fd_leak_witness:
  "open_fds demo_net1 = {0, 3, 4, 5} \<union> {7} \<and> distinct (conn_ids (nsrv demo_net1)) \<and>
     (\<exists>s' evs. loop_round demo_quit (nsrv demo_net1) = Inr (LoopAgain, s', evs) \<and>
        count_list evs (IoClose 7) = 1 \<and> count_list evs (IoDelete 7) = 1)"
proof -
  have inv: "srv_inv {0, 3, 4, 5} shipped_db demo_net1" by (rule serving.reach_inv [OF demo_reach])
  have ids: "conn_ids (nsrv demo_net1) = [7]" by (simp add: demo_net1_def conn_ids_def)
  have l: "loop_round demo_quit (nsrv demo_net1) =
      Inr (LoopAgain, round_result (nsrv demo_net1) demo_quit, round_events (nsrv demo_net1) demo_quit)"
    using loop_round_inv [OF inv demo_quit_ok] by (simp add: demo_quit_def)
  have a: "accepted (nsrv demo_net1) demo_quit = []" by (simp add: accepted_def demo_quit_def)
  have "srv_ok (nsrv demo_net1)" using inv by (simp add: srv_inv_def)
  from round_result_ids [OF this srv_inv_facts(2,4) [OF inv demo_quit_ok(1)]]
  have "conn_ids (round_result (nsrv demo_net1) demo_quit) = []" by (simp add: ids a demo_quit_quits)
  then show ?thesis
    using server_no_fd_leak [OF demo_reach] demo_quit_ok l ids by auto
qed

text \<open>C2: in every reachable state, as long as the system keeps its promises (\<open>select\<close> leaves
  watched descriptors and counts them, \<open>accept\<close> gives a fresh descriptor below
  \<open>FD_SETSIZE\<close>) and no ready client's request fills the 65-byte buffer without terminator, a
  turn in which \<open>select\<close> succeeds is free of undefined behaviour, goes on with the loop, and
  leaves as connections, in order, the old ones and the accepted one, without those that ended:
  the ready ones whose input ended or began with \<open>quit\<close>. Without these conditions a turn can be
  undefined (\<open>postSelect_overread\<close>, \<open>large_fd_undefined\<close>).\<close>

theorem turn_refines:
  assumes "reach (srv_init base db) srv_step n"
    and "env_ok (open_fds n) (nsrv n) env" and "acc env < FD_SETSIZE"
    and "sel env = Selected nfds rset"
  shows "\<exists>s' evs. loop_round env (nsrv n) = Inr (LoopAgain, s', evs) \<and>
    conn_ids s' = filter (\<lambda>fd. \<not> (fd \<in> rset \<and>
        (case rd env fd of ReadErr \<Rightarrow> False | ReadBytes bs \<Rightarrow> bs = [] \<or> take 4 (cstr bs) = ''quit'')))
      (conn_ids (nsrv n) @ (if mListenFd (nsrv n) \<in> rset \<and> acc env > 0 then [acc env] else []))"
proof -
  have inv: "srv_inv base db n" by (rule serving.reach_inv [OF assms(1)])
  then have ok: "srv_ok (nsrv n)" by (simp add: srv_inv_def)
  show ?thesis
    using loop_round_inv [OF inv assms(2,3)] assms(4)
      round_result_ids [OF ok srv_inv_facts(2,4) [OF inv assms(2)]]
    by (simp add: quitting_def [abs_def] accepted_def)
qed

theorem turn_refines_witness:
  "\<exists>s' evs. loop_round \<lparr>sel = Selected 1 {7}, acc = -1, rd = (\<lambda>fd. ReadBytes ''quit now''), wr = (\<lambda>fd. 0)\<rparr>
      (nsrv demo_net1) = Inr (LoopAgain, s', evs) \<and> conn_ids s' = []"
proof -
  let ?env = "\<lparr>sel = Selected 1 {7}, acc = -1, rd = (\<lambda>fd. ReadBytes ''quit now''), wr = (\<lambda>fd. 0)\<rparr>"
  have env: "env_ok (open_fds demo_net1) (nsrv demo_net1) ?env"
    by (auto simp: env_ok_def demo_net1_def demo_server_def watched_def conn_ids_def BUFF_SIZE_def)
  have lim: "acc ?env < FD_SETSIZE" by (simp add: FD_SETSIZE_def)
  have sel: "sel ?env = Selected 1 {7}" by simp
  have q: "take 4 (cstr ''quit now'') = ''quit''" by code_simp
  have ids: "conn_ids (nsrv demo_net1) = [7]" by (simp add: demo_net1_def conn_ids_def)
  show ?thesis
    using turn_refines [OF demo_reach env lim sel] by (simp add: ids q)
qed

text \<open>C14: clients do not affect each other: in every turn from a reachable state, under the
  conditions of \<open>turn_refines\<close> on the system and the ready clients, each write goes to a ready
  connection and is the reply of the original database to the bytes read from that same
  connection in that turn (the first 65 it holds), and a descriptor is closed only if it is a
  connection whose own input ended it.\<close>

theorem turn_isolation:
  assumes "reach (srv_init base db) srv_step n"
    and "env_ok (open_fds n) (nsrv n) env" and "acc env < FD_SETSIZE"
    and "loop_round env (nsrv n) = Inr (ctl, s', evs)"
  shows "(IoWrite fd out \<in> set evs \<longrightarrow> fd \<in> set (conn_ids (nsrv n)) \<and> fd \<in> ready (sel env) \<and>
      (\<exists>req. rd env fd = ReadBytes req \<and> out = reply_text (answer db (cstr (take 65 req))))) \<and>
    (IoClose fd \<in> set evs \<longrightarrow> fd \<in> set (conn_ids (nsrv n)) \<and> quitting env fd)"
proof -
  have inv: "srv_inv base db n" by (rule serving.reach_inv [OF assms(1)])
  then have db: "mXmlData (nsrv n) = db" by (simp add: srv_inv_def)
  have "evs = [] \<or> evs = round_events (nsrv n) env"
    using loop_round_inv [OF inv assms(2,3)] assms(4) by (auto split: select_result.splits)
  then show ?thesis using round_events_writes round_events_closes db by fastforce
qed

theorem turn_isolation_witness:
  "\<exists>s' evs. loop_round \<lparr>sel = Selected 1 {7}, acc = -1, rd = (\<lambda>fd. ReadBytes ''support''), wr = (\<lambda>fd. 0)\<rparr>
      (nsrv demo_net1) = Inr (LoopAgain, s', evs) \<and>
      IoWrite 7 (reply_text (answer shipped_db ''support'')) \<in> set evs \<and>
      (\<forall>out. IoWrite 7 out \<in> set evs \<longrightarrow> out = reply_text (answer shipped_db ''support''))"
proof -
  let ?env = "\<lparr>sel = Selected 1 {7}, acc = -1, rd = (\<lambda>fd. ReadBytes ''support''), wr = (\<lambda>fd. 0)\<rparr>"
  have inv: "srv_inv {0, 3, 4, 5} shipped_db demo_net1" by (rule serving.reach_inv [OF demo_reach])
  have env: "env_ok (open_fds demo_net1) (nsrv demo_net1) ?env"
    by (auto simp: env_ok_def demo_net1_def demo_server_def watched_def conn_ids_def BUFF_SIZE_def)
  have lim: "acc ?env < FD_SETSIZE" by (simp add: FD_SETSIZE_def)
  have c: "cstr (take 65 ''support'') = ''support''" "cstr ''support'' = ''support''" by code_simp+
  have l: "loop_round ?env (nsrv demo_net1) =
      Inr (LoopAgain, round_result (nsrv demo_net1) ?env, round_events (nsrv demo_net1) ?env)"
    using loop_round_inv [OF inv env lim] by simp
  have w: "IoWrite 7 (reply_text (answer shipped_db ''support'')) \<in> set (round_events (nsrv demo_net1) ?env)"
    by (simp add: round_events_def client_events_def post_spec_def demo_net1_def demo_server_def
        conn_ids_def c Let_def)
  have "out = reply_text (answer shipped_db ''support'')"
    if "IoWrite 7 out \<in> set (round_events (nsrv demo_net1) ?env)" for out
    using turn_isolation [OF demo_reach env lim l, of 7 out] that by (auto simp: c)
  with l w show ?thesis by blast
qed

text \<open>A connection whose read fails stays in the table after the turn and is watched again,
  so a client whose socket is in an error state is never removed.\<close>

lemma failed_read_keeps_connection:
  assumes "reach (srv_init base db) srv_step n"
    and "env_ok (open_fds n) (nsrv n) env" and "acc env < FD_SETSIZE"
    and "fd \<in> set (conn_ids (nsrv n))" and "rd env fd = ReadErr"
    and "loop_round env (nsrv n) = Inr (ctl, s', evs)"
  shows "fd \<in> set (conn_ids s') \<and> (\<exists>m. select_args s' = Inr (m, Some (watched s')) \<and> fd \<in> watched s')"
proof -
  have inv: "srv_inv base db n" by (rule serving.reach_inv [OF assms(1)])
  then have ok: "srv_ok (nsrv n)" by (simp add: srv_inv_def)
  have fd: "fd \<in> set (conn_ids s')"
  proof (cases "sel env")
    case (SelectError eintr)
    then show ?thesis using loop_round_inv [OF inv assms(2,3)] assms(4,6) by simp
  next
    case (Selected nfds rset)
    then have "s' = round_result (nsrv n) env"
      using loop_round_inv [OF inv assms(2,3)] assms(6) by simp
    then show ?thesis
      using round_result_ids [OF ok srv_inv_facts(2,4) [OF inv assms(2)]] assms(4,5)
      by (simp add: quitting_def)
  qed
  have "srv_ok s'"
  proof (cases ctl)
    case LoopAgain
    then have "srv_step n \<lparr>nsrv = s', open_fds = fold apply_io evs (open_fds n)\<rparr>"
      using srv_step.turn [OF assms(2,3)] assms(6) by simp
    from srv_inv_step [OF inv this] show ?thesis by (simp add: srv_inv_def)
  next
    case LoopReturn
    then show ?thesis using loop_round_inv [OF inv assms(2,3)] assms(6) ok
      by (simp split: select_result.splits if_splits)
  qed
  with fd select_args_watched show ?thesis by (auto simp: watched_def)
qed

text \<open>C37: once a connection has a descriptor of \<open>FD_SETSIZE\<close> or more, the next turn is undefined
  behaviour before \<open>select\<close> is called, whatever the system answers, because the code puts
  every connection's descriptor in the set unchecked.\<close>

theorem large_fd_undefined:
  assumes "fd_in_range (mWakeupRead s)" and "fd_in_range (mListenFd s)"
    and "list_all (\<lambda>fd. 0 < fd) (conn_ids s)" and "fd \<in> set (conn_ids s)" and "1024 \<le> fd"
  shows "loop_round env s = Inl FdOutOfRange"
proof -
  let ?cs = "mConnectors s"
  have pos: "0 < mConnID c" if "c \<in> set ?cs" for c
    using assms(3) that by (auto simp: list_all_iff conn_ids_def)
  have bad: "preSelect c (Some r) = Inl FdOutOfRange" if "c \<in> set ?cs" "\<not> fd_in_range (mConnID c)" for c r
    using pos [OF that(1)] that(2) by (simp add: preSelect_def FD_SET_def)
  have "\<exists>c \<in> set ?cs. \<not> fd_in_range (mConnID c)"
    using assms(4,5) by (force simp: conn_ids_def fd_in_range_def FD_SETSIZE_def)
  then have some: "\<exists>c \<in> set ?cs. \<forall>r. preSelect c (Some r) = Inl FdOutOfRange" using bad by blast
  have all: "\<forall>c \<in> set ?cs. (0 < mConnID c \<and> fd_in_range (mConnID c)) \<or>
      (\<forall>r. preSelect c (Some r) = Inl FdOutOfRange)" using pos bad by blast
  show ?thesis
    using client.pre_loop_out_of_range [OF some all] assms(1,2)
    by (simp add: loop_round_def select_args_def FD_SET_def)
qed

theorem large_fd_undefined_witness:
  "loop_round demo_accept (demo_server\<lparr>mConnectors := [\<lparr>mConnID = 1024\<rparr>]\<rparr>) = Inl FdOutOfRange"
  by (rule large_fd_undefined [where fd = 1024])
    (simp_all add: demo_server_def conn_ids_def fd_in_range_def FD_SETSIZE_def)

text \<open>\<open>run\<close> enters its loop exactly when there is an SDK, the pipe is made and \<open>listen\<close>
  succeeds, and then, with the descriptors it was given in range and different, its first state
  is one from which every reachable state keeps the descriptors in balance.\<close>

lemma setup_serves:
  assumes "mConnectors s = []" and "se_pipe env = Some (r, w)"
    and "{0, r, se_socket env} \<subseteq> base" and "r \<noteq> se_socket env"
    and "fd_in_range r" and "fd_in_range (se_socket env)"
  shows "case run_setup env s of (out, s', evs) \<Rightarrow>
    if mData (mXmlData s) \<noteq> [] \<and> 0 \<le> se_listen env
    then out = Serving \<and> srv_init base (mXmlData s) \<lparr>nsrv = s', open_fds = base\<rparr>
    else out \<noteq> Serving \<and> mConnectors s' = []"
  using assms by (auto simp: run_setup_def getSDKSCount_def srv_init_def Let_def)

text \<open>When \<open>listen\<close> fails the control socket is the only descriptor \<open>run\<close> closes: the two
  ends of the pipe it made stay open although the thread ends.\<close>

lemma listen_failure_leaks_pipe:
  assumes "mData (mXmlData s) \<noteq> []" and "se_pipe env = Some (r, w)" and "se_listen env < 0"
    and "r \<in> fds" and "w \<in> fds" and "se_socket env \<notin> {r, w}"
  shows "\<exists>s' evs. run_setup env s = (ListenFailed, s', evs) \<and>
    {r, w} \<subseteq> fold apply_io evs fds \<and> se_socket env \<notin> fold apply_io evs fds"
  using assms by (auto simp: run_setup_def getSDKSCount_def Let_def)

text \<open>C16: from the set-up on, \<open>run\<close> is free of undefined behaviour for as many turns as the system
  keeps its promises (\<open>env_ok\<close>, accepted descriptors below \<open>FD_SETSIZE\<close>) and no ready client's
  request fills the buffer without terminator, and every text it ever writes to a client is the answer of the database
  the server was built with to some request.\<close>

theorem run_defined:
  assumes "mConnectors s = []" and "mData (mXmlData s) \<noteq> []" and "se_pipe env = Some (r, w)"
    and "0 \<le> se_listen env" and "{0, r, se_socket env} \<subseteq> base" and "r \<noteq> se_socket env"
    and "fd_in_range r" and "fd_in_range (se_socket env)"
    and "turns_ok envs \<lparr>nsrv = fst (snd (run_setup env s)), open_fds = base\<rparr>"
  shows "\<exists>ctl s' evs. run env envs s = Inr (ctl, s', evs) \<and>
    (\<forall>fd out. IoWrite fd out \<in> set evs \<longrightarrow> (\<exists>msg. out = reply_text (answer (mXmlData s) msg)))"
proof -
  obtain s1 evs1 where u: "run_setup env s = (Serving, s1, evs1)"
    and i: "srv_init base (mXmlData s) \<lparr>nsrv = s1, open_fds = base\<rparr>"
    and e: "\<forall>fd out. IoWrite fd out \<notin> set evs1"
    using assms by (auto simp: run_setup_def getSDKSCount_def srv_init_def Let_def)
  from run_loop_defined [OF srv_inv_init [OF i], of envs] assms(9) u obtain ctl s' evs where
    "run_loop envs s1 = Inr (ctl, s', evs)"
    "\<forall>fd out. IoWrite fd out \<in> set evs \<longrightarrow> (\<exists>msg. out = reply_text (answer (mXmlData s) msg))" by auto
  then show ?thesis using u e by (auto simp: run_def)
qed

theorem run_defined_witness:
  "\<exists>ctl s' evs. run \<lparr>se_pipe = Some (3, 4), se_socket = 5, se_listen = 0\<rparr> [demo_accept]
      (demo_server\<lparr>mWakeupRead := -1, mWakeupWrite := -1, mListenFd := -1\<rparr>) = Inr (ctl, s', evs)"
proof -
  let ?s = "demo_server\<lparr>mWakeupRead := -1, mWakeupWrite := -1, mListenFd := -1\<rparr>"
  let ?env = "\<lparr>se_pipe = Some (3, 4), se_socket = 5, se_listen = 0\<rparr>"
  have c: "mConnectors ?s = []" and d: "mData (mXmlData ?s) \<noteq> []"
    by (simp_all add: demo_server_def shipped_db_def)
  have p: "se_pipe ?env = Some (3, 4)" and l: "0 \<le> se_listen ?env"
    and b: "{0, 3, se_socket ?env} \<subseteq> {0, 3, 4, 5}" and n: "3 \<noteq> se_socket ?env" by simp_all
  have r: "fd_in_range 3" "fd_in_range (se_socket ?env)" by (simp_all add: fd_in_range_def FD_SETSIZE_def)
  have u: "fst (snd (run_setup ?env ?s)) = demo_server"
    using d by (simp add: run_setup_def getSDKSCount_def demo_server_def Let_def)
  have "env_ok (open_fds demo_net) (nsrv demo_net) demo_accept"
    by (auto simp: env_ok_def demo_net_def demo_server_def demo_accept_def watched_def conn_ids_def)
  then have "turns_ok [demo_accept] \<lparr>nsrv = fst (snd (run_setup ?env ?s)), open_fds = {0, 3, 4, 5}\<rparr>"
    unfolding u by (simp add: demo_net_def demo_accept_def FD_SETSIZE_def split: sum.split loop_ctl.split)
  from run_defined [OF c d p l b n r this] show ?thesis by blast
qed

text \<open>C3: every client is served in its turn, under the conditions of \<open>turn_refines\<close>: the system
  keeps its promises (\<open>select\<close> leaves watched descriptors and counts them, \<open>accept\<close> gives a
  fresh descriptor below \<open>FD_SETSIZE\<close>) and no ready client, this one or another, sends a
  request that fills the 65-byte buffer without terminator (one such request makes the whole
  turn undefined). Then, in a turn of a reachable state, each connection that \<open>select\<close> reports
  ready gets, and in this order, one read, then, for a request, the one reply of the database to
  the first 65 bytes of it and its place in the next turn, for a request that begins with
  \<open>quit\<close> or the end of its input its deletion and the close of its descriptor, and for a failed
  read nothing. However many others are ready, and whether or not a client is accepted in that
  turn.\<close>

theorem turn_serves_ready:
  assumes "reach (srv_init base db) srv_step n"
    and "env_ok (open_fds n) (nsrv n) env" and "acc env < FD_SETSIZE"
    and "sel env = Selected nfds rset" and "fd \<in> set (conn_ids (nsrv n))" and "fd \<in> rset"
  shows "\<exists>s' evs. loop_round env (nsrv n) = Inr (LoopAgain, s', evs) \<and>
    filter (\<lambda>e. io_fd e = fd) evs =
      IoRead fd 65 #
      (case rd env fd of
         ReadErr \<Rightarrow> []
       | ReadBytes req \<Rightarrow>
           if req = [] \<or> take 4 (cstr req) = ''quit'' then [IoDelete fd, IoClose fd]
           else [IoWrite fd (reply_text (answer db (cstr (take 65 req))))]) \<and>
    (fd \<in> set (conn_ids s') \<longleftrightarrow> (case rd env fd of
         ReadErr \<Rightarrow> True | ReadBytes req \<Rightarrow> req \<noteq> [] \<and> take 4 (cstr req) \<noteq> ''quit''))"
proof -
  have inv: "srv_inv base db n" by (rule serving.reach_inv [OF assms(1)])
  then have ok: "srv_ok (nsrv n)" and db: "mXmlData (nsrv n) = db" by (simp_all add: srv_inv_def)
  note facts = srv_inv_facts [OF inv assms(2)]
  have l: "loop_round env (nsrv n) =
      Inr (LoopAgain, round_result (nsrv n) env, round_events (nsrv n) env)"
    using loop_round_inv [OF inv assms(2,3)] assms(4) by simp
  have e: "filter (\<lambda>e. io_fd e = fd) (round_events (nsrv n) env) =
      client_events (nsrv n) env fd @ (if quitting env fd then [IoDelete fd, IoClose fd] else [])"
    using events_of_round [OF ok facts(2) assms(5)] by (simp add: events_of_def)
  have i: "fd \<in> set (conn_ids (round_result (nsrv n) env)) \<longleftrightarrow> \<not> quitting env fd"
    using round_result_ids [OF ok facts(2,4)] assms(5) by auto
  show ?thesis
    using l e i assms(4,6) db
    by (auto simp: client_events_def post_spec_def quitting_def Let_def split: read_result.split)
qed

theorem turn_serves_ready_witness:
  "\<exists>s' evs. loop_round \<lparr>sel = Selected 2 {5, 7}, acc = 8, rd = (\<lambda>fd. ReadBytes ''support_sdks''), wr = (\<lambda>fd. 0)\<rparr>
      (nsrv demo_net1) = Inr (LoopAgain, s', evs) \<and>
      filter (\<lambda>e. io_fd e = 7) evs = [IoRead 7 65, IoWrite 7 ''SVR^LVR'']"
proof -
  let ?env = "\<lparr>sel = Selected 2 {5, 7}, acc = 8, rd = (\<lambda>fd. ReadBytes ''support_sdks''), wr = (\<lambda>fd. 0)\<rparr>"
  have env: "env_ok (open_fds demo_net1) (nsrv demo_net1) ?env"
    by (auto simp: env_ok_def demo_net1_def demo_server_def watched_def conn_ids_def BUFF_SIZE_def)
  have lim: "acc ?env < FD_SETSIZE" by (simp add: FD_SETSIZE_def)
  have sel: "sel ?env = Selected 2 {5, 7}" by simp
  have fd: "7 \<in> set (conn_ids (nsrv demo_net1))" by (simp add: demo_net1_def conn_ids_def)
  have r: "7 \<in> {5, 7 :: int}" by simp
  have m: "cstr (take 65 ''support_sdks'') = ''support_sdks''" "cstr ''support_sdks'' = ''support_sdks''" "take 4 ''support_sdks'' = ''supp''"
    "reply_text (answer shipped_db ''support_sdks'') = ''SVR^LVR''" by code_simp+
  show ?thesis
    using turn_serves_ready [OF demo_reach env lim sel fd r] by (auto simp: m)
qed

end
