(* ===== verification/StartupThread.thy ===== *)
theory StartupThread
  imports StdMap
begin

text \<open>
  \<open>jni/main/Thread.cpp\<close>: the thread class. The constructor creates the thread of execution
  before the derived object exists, so it takes \<open>gStartupMutex\<close> first, \<open>start\<close> releases it and
  \<open>threadEntry\<close> passes through it before it calls the virtual \<open>run\<close>. One thread of the program,
  the caller, constructs, starts and deletes \<open>Thread\<close> objects; each successful
  \<open>pthread_create\<close> adds a worker. A step is one call of \<open>pthread\<close> or one access to
  \<open>gThreads\<close>, by the caller or by any worker, in any order. What \<open>pthread_create\<close> answers, the
  identifier it stores and whether there is a new thread, is an argument of the step; the code
  looks at neither. Whether the virtual \<open>run\<close> returns is an argument too: it may at any time, or
  never, as the one of \<open>ServerListener\<close> does while its loop goes on. The log records \<open>start\<close> and the entries of \<open>run\<close>.
\<close>

type_synonym obj = nat
type_synonym pthread_t = nat

datatype tcall =
    CallNew obj
  | CallStart obj
  | CallDelete obj

datatype caller_pc =
    Idle
  | CtorCreate obj       \<comment> \<open>holds \<open>gStartupMutex\<close>, before \<open>pthread_create\<close>\<close>
  | CtorLock obj         \<comment> \<open>before \<open>pthread_mutex_lock(&gMutex)\<close>\<close>
  | CtorInsert obj
  | CtorUnlock obj
  | DtorErase obj        \<comment> \<open>holds \<open>gMutex\<close>, before \<open>find\<close> and \<open>erase\<close>\<close>
  | DtorUnlock obj

datatype worker_pc =
    WWait                \<comment> \<open>before \<open>pthread_mutex_lock(&gStartupMutex)\<close>\<close>
  | WUnlock              \<comment> \<open>holds \<open>gStartupMutex\<close>\<close>
  | WEnter               \<comment> \<open>before \<open>self->run()\<close>\<close>
  | WRun
  | WDone

record worker =
  wtid :: pthread_t
  wobj :: obj
  wpc :: worker_pc

datatype tlog = LStart obj | LRun obj

record tstate =
  gStartupMutex :: bool
  gMutex :: bool
  gThreads :: "(pthread_t, obj) stdmap"
  mID :: "obj \<Rightarrow> pthread_t"
  cpc :: caller_pc
  todo :: "tcall list"
  workers :: "worker list"
  log :: "tlog list"

section \<open>The steps\<close>

definition live_tid :: "pthread_t \<Rightarrow> worker list \<Rightarrow> bool" where
  "live_tid tid ws = list_ex (\<lambda>w. wtid w = tid \<and> wpc w \<noteq> WDone) ws"

definition thread_create :: "pthread_t \<Rightarrow> bool \<Rightarrow> obj \<Rightarrow> tstate \<Rightarrow> tstate option" where
  "thread_create tid created ob s =
     (if created \<and> live_tid tid (workers s) then None
      else Some (s\<lparr>mID := (mID s)(ob := tid), cpc := CtorLock ob,
        workers := workers s @ (if created then [\<lparr>wtid = tid, wobj = ob, wpc = WWait\<rparr>] else [])\<rparr>))"

text \<open>The caller's next call begins: \<open>None\<close> when it blocks on a mutex.\<close>

definition begin_call :: "tstate \<Rightarrow> tstate option" where
  "begin_call s =
     (case todo s of
        [] \<Rightarrow> None
      | CallNew ob # cs \<Rightarrow>
          if gStartupMutex s then None
          else Some (s\<lparr>gStartupMutex := True, cpc := CtorCreate ob, todo := cs\<rparr>)
      | CallStart ob # cs \<Rightarrow> Some (s\<lparr>gStartupMutex := False, todo := cs, log := log s @ [LStart ob]\<rparr>)
      | CallDelete ob # cs \<Rightarrow>
          if gMutex s then None else Some (s\<lparr>gMutex := True, cpc := DtorErase ob, todo := cs\<rparr>))"

definition caller_step :: "pthread_t \<Rightarrow> bool \<Rightarrow> tstate \<Rightarrow> tstate option" where
  "caller_step tid created s =
     (case cpc s of
        Idle \<Rightarrow> begin_call s
      | CtorCreate ob \<Rightarrow> thread_create tid created ob s
      | CtorLock ob \<Rightarrow> if gMutex s then None else Some (s\<lparr>gMutex := True, cpc := CtorInsert ob\<rparr>)
      | CtorInsert ob \<Rightarrow>
          Some (s\<lparr>gThreads := stdmap_insert (mID s ob) ob (gThreads s), cpc := CtorUnlock ob\<rparr>)
      | CtorUnlock ob \<Rightarrow> Some (s\<lparr>gMutex := False, cpc := Idle\<rparr>)
      | DtorErase ob \<Rightarrow>
          Some (s\<lparr>gThreads := (case stdmap_find (gThreads s) (mID s ob) of
                    None \<Rightarrow> gThreads s | Some _ \<Rightarrow> stdmap_erase (mID s ob) (gThreads s)),
                  cpc := DtorUnlock ob\<rparr>)
      | DtorUnlock ob \<Rightarrow> Some (s\<lparr>gMutex := False, cpc := Idle\<rparr>))"

definition set_pc :: "nat \<Rightarrow> worker_pc \<Rightarrow> tstate \<Rightarrow> tstate" where
  "set_pc i p s = s\<lparr>workers := (workers s)[i := (workers s ! i)\<lparr>wpc := p\<rparr>]\<rparr>"

text \<open>\<open>ret\<close>: the \<open>run\<close> of the object returns in this step; otherwise it goes on.\<close>

definition threadEntry :: "nat \<Rightarrow> bool \<Rightarrow> tstate \<Rightarrow> tstate option" where
  "threadEntry i ret s =
     (case wpc (workers s ! i) of
        WWait \<Rightarrow> if gStartupMutex s then None else Some (set_pc i WUnlock (s\<lparr>gStartupMutex := True\<rparr>))
      | WUnlock \<Rightarrow> Some (set_pc i WEnter (s\<lparr>gStartupMutex := False\<rparr>))
      | WEnter \<Rightarrow> Some (set_pc i WRun (s\<lparr>log := log s @ [LRun (wobj (workers s ! i))]\<rparr>))
      | WRun \<Rightarrow> if ret then Some (set_pc i WDone s) else None
      | WDone \<Rightarrow> None)"

inductive thread_step :: "tstate \<Rightarrow> tstate \<Rightarrow> bool" where
  by_caller: "caller_step tid created s = Some t \<Longrightarrow> thread_step s t"
| by_worker: "i < length (workers s) \<Longrightarrow> threadEntry i ret s = Some t \<Longrightarrow> thread_step s t"

inductive_cases thread_stepE: "thread_step s t"

text \<open>The steps that do not need a \<open>run\<close> to return.\<close>

inductive startup_step :: "tstate \<Rightarrow> tstate \<Rightarrow> bool" where
  startup_caller: "caller_step tid created s = Some t \<Longrightarrow> startup_step s t"
| startup_worker: "i < length (workers s) \<Longrightarrow> threadEntry i False s = Some t \<Longrightarrow> startup_step s t"

inductive_cases startup_stepE: "startup_step s t"

lemma startup_thread_step: "startup_step s t \<Longrightarrow> thread_step s t"
  by (auto elim!: startup_stepE intro: thread_step.intros)

definition thread_init :: "tcall list \<Rightarrow> tstate" where
  "thread_init cs = \<lparr>gStartupMutex = False, gMutex = False, gThreads = [], mID = (\<lambda>_. 0),
     cpc = Idle, todo = cs, workers = [], log = []\<rparr>"

abbreviation thread_reach :: "tcall list \<Rightarrow> tstate \<Rightarrow> bool" where
  "thread_reach cs \<equiv> reach (\<lambda>s. s = thread_init cs) thread_step"

section \<open>Programs that start each object before the next one is constructed\<close>

fun paired :: "tcall list \<Rightarrow> bool" where
  "paired [] = True"
| "paired (CallDelete ob # cs) = paired cs"
| "paired (CallNew ob # CallStart ob' # cs) = (ob = ob' \<and> paired cs)"
| "paired (CallNew ob # cs) = False"
| "paired (CallStart ob # cs) = False"

text \<open>The object whose constructor has run \<open>pthread_mutex_lock\<close> and which is not started.\<close>

fun current :: "caller_pc \<Rightarrow> tcall list \<Rightarrow> obj option" where
  "current (CtorCreate ob) cs = Some ob"
| "current (CtorLock ob) cs = Some ob"
| "current (CtorInsert ob) cs = Some ob"
| "current (CtorUnlock ob) cs = Some ob"
| "current Idle (CallStart ob # cs) = Some ob"
| "current _ cs = None"

definition rest_ok :: "obj option \<Rightarrow> tcall list \<Rightarrow> bool" where
  "rest_ok cur cs = (case cur of None \<Rightarrow> paired cs
     | Some ob \<Rightarrow> (case cs of CallStart ob' # cs' \<Rightarrow> ob' = ob \<and> paired cs' | _ \<Rightarrow> False))"

fun holds_gMutex :: "caller_pc \<Rightarrow> bool" where
  "holds_gMutex (CtorInsert ob) = True"
| "holds_gMutex (CtorUnlock ob) = True"
| "holds_gMutex (DtorErase ob) = True"
| "holds_gMutex (DtorUnlock ob) = True"
| "holds_gMutex _ = False"

definition holders :: "worker list \<Rightarrow> nat" where
  "holders ws = length (filter (\<lambda>w. wpc w = WUnlock) ws)"

definition started :: "tstate \<Rightarrow> obj set" where
  "started s = {ob. LStart ob \<in> set (log s)}"

definition runs_after_start :: "tlog list \<Rightarrow> bool" where
  "runs_after_start l = (\<forall>k < length l. \<forall>ob. l ! k = LRun ob \<longrightarrow> LStart ob \<in> set (take k l))"

definition thread_inv :: "tstate \<Rightarrow> bool" where
  "thread_inv s \<longleftrightarrow>
     rest_ok (current (cpc s) (todo s)) (todo s) \<and>
     gMutex s = holds_gMutex (cpc s) \<and>
     holders (workers s) + (if current (cpc s) (todo s) = None then 0 else 1) =
       (if gStartupMutex s then 1 else 0) \<and>
     (\<forall>w \<in> set (workers s). (wobj w \<in> started s \<or> current (cpc s) (todo s) = Some (wobj w)) \<and>
        (wpc w \<noteq> WWait \<longrightarrow> wobj w \<in> started s)) \<and>
     stdmap_ok (gThreads s) \<and> runs_after_start (log s)"

lemma runs_after_start_Nil [simp]: "runs_after_start []"
  by (simp add: runs_after_start_def)

lemma runs_after_start_snoc [simp]:
  "runs_after_start (l @ [x]) \<longleftrightarrow>
     runs_after_start l \<and> (case x of LRun ob \<Rightarrow> LStart ob \<in> set l | LStart ob \<Rightarrow> True)"
  by (auto simp: runs_after_start_def nth_append less_Suc_eq split: tlog.split)

lemma holders_update:
  "i < length ws \<Longrightarrow>
     holders (ws[i := w]) + (if wpc (ws ! i) = WUnlock then 1 else 0) =
     holders ws + (if wpc w = WUnlock then 1 else 0)"
  unfolding holders_def
proof (induction ws arbitrary: i)
  case (Cons x ws)
  then show ?case by (cases i) auto
qed simp

lemma holders_append [simp]: "holders (ws @ vs) = holders ws + holders vs"
  by (simp add: holders_def)

lemma current_Idle: "current Idle cs = Some ob \<longleftrightarrow> (\<exists>cs'. cs = CallStart ob # cs')"
  by (cases cs; cases "hd cs") auto

lemma paired_begin:
  "paired (CallNew ob # cs) \<longleftrightarrow> (\<exists>cs'. cs = CallStart ob # cs' \<and> paired cs')"
  by (cases cs; cases "hd cs") auto

lemma paired_current: "paired cs \<Longrightarrow> current Idle cs = None"
  by (cases cs; cases "hd cs") auto

lemma current_Dtor [simp]: "current (DtorErase ob) cs = None" "current (DtorUnlock ob) cs = None"
  by (cases cs; simp)+

lemma rest_ok_simps [simp]:
  "rest_ok None cs = paired cs"
  "rest_ok (Some ob) cs = (\<exists>cs'. cs = CallStart ob # cs' \<and> paired cs')"
  by (auto simp: rest_ok_def split: list.splits tcall.splits)

lemma started_simps [simp]:
  "started (s\<lparr>gStartupMutex := a, cpc := b, todo := c\<rparr>) = started s"
  "started (s\<lparr>log := log s @ [LRun ob]\<rparr>) = started s"
  by (auto simp: started_def)

lemma thread_inv_init: "paired cs \<Longrightarrow> thread_inv (thread_init cs)"
  by (simp add: thread_inv_def thread_init_def paired_current holders_def)

lemma caller_begin_inv:
  assumes inv: "thread_inv s" and pc: "cpc s = Idle" and step: "begin_call s = Some t"
  shows "thread_inv t"
proof (cases "todo s")
  case Nil
  with step show ?thesis by (simp add: begin_call_def)
next
  case (Cons c cs)
  show ?thesis
  proof (cases c)
    case (CallNew ob)
    then show ?thesis using inv pc step Cons
      by (auto simp: begin_call_def thread_inv_def paired_begin started_def split: if_splits)
  next
    case (CallStart ob)
    then show ?thesis using inv pc step Cons
      by (auto simp: begin_call_def thread_inv_def paired_current started_def split: if_splits)
  next
    case (CallDelete ob)
    then show ?thesis using inv pc step Cons
      by (auto simp: begin_call_def thread_inv_def started_def split: if_splits)
  qed
qed

lemma thread_create_inv:
  "thread_inv s \<Longrightarrow> cpc s = CtorCreate ob \<Longrightarrow> thread_create tid created ob s = Some t \<Longrightarrow> thread_inv t"
  by (auto simp: thread_inv_def thread_create_def started_def holders_def split: if_splits)

lemma caller_step_inv:
  assumes inv: "thread_inv s" and step: "caller_step tid created s = Some t"
  shows "thread_inv t"
proof (cases "cpc s")
  case Idle
  then show ?thesis using caller_begin_inv [OF inv] step by (simp add: caller_step_def)
next
  case (CtorCreate ob)
  then show ?thesis using thread_create_inv [OF inv] step by (simp add: caller_step_def)
next
  case (CtorLock ob)
  then show ?thesis using inv step by (auto simp: caller_step_def thread_inv_def started_def split: if_splits)
next
  case (CtorInsert ob)
  then show ?thesis using inv step by (auto simp: caller_step_def thread_inv_def started_def stdmap_insert_ok split: if_splits)
next
  case (CtorUnlock ob)
  then show ?thesis using inv step by (auto simp: caller_step_def thread_inv_def started_def split: if_splits)
next
  case (DtorErase ob)
  then show ?thesis using inv step
    by (auto simp: caller_step_def thread_inv_def started_def stdmap_erase_ok split: option.splits if_splits)
next
  case (DtorUnlock ob)
  then show ?thesis using inv step by (auto simp: caller_step_def thread_inv_def started_def paired_current split: if_splits)
qed

lemma set_list_update_cases: "w \<in> set (ws[i := v]) \<Longrightarrow> w = v \<or> w \<in> set ws"
  using set_update_subset_insert by fastforce

lemma set_pc_workers:
  "i < length (workers s) \<Longrightarrow>
     holders (workers (set_pc i p s)) + (if wpc (workers s ! i) = WUnlock then 1 else 0) =
     holders (workers s) + (if p = WUnlock then 1 else 0)"
  using holders_update [of i "workers s" "(workers s ! i)\<lparr>wpc := p\<rparr>"] by (simp add: set_pc_def)

lemma set_pc_objs:
  assumes "i < length (workers s)" and "w \<in> set (workers (set_pc i p s))"
  shows "(\<exists>v \<in> set (workers s). wobj w = wobj v \<and> (wpc w = wpc v \<or> v = workers s ! i \<and> wpc w = p))"
  using assms set_list_update_cases [of w "workers s" i] nth_mem [OF assms(1)]
  by (force simp: set_pc_def)

lemma set_pc_frame [simp]:
  "gStartupMutex (set_pc i p s) = gStartupMutex s" "gMutex (set_pc i p s) = gMutex s"
  "gThreads (set_pc i p s) = gThreads s" "cpc (set_pc i p s) = cpc s" "todo (set_pc i p s) = todo s"
  "log (set_pc i p s) = log s" "started (set_pc i p s) = started s" "mID (set_pc i p s) = mID s"
  by (simp_all add: set_pc_def started_def)

lemma worker_pcs_inv:
  assumes "i < length (workers s)" and "p \<noteq> WWait \<longrightarrow> wobj (workers s ! i) \<in> S"
    and "\<forall>w \<in> set (workers s). (wobj w \<in> S \<or> c = Some (wobj w)) \<and> (wpc w \<noteq> WWait \<longrightarrow> wobj w \<in> S)"
    and "workers s' = workers (s :: tstate)"
  shows "\<forall>w \<in> set (workers (set_pc i p s')). (wobj w \<in> S \<or> c = Some (wobj w)) \<and> (wpc w \<noteq> WWait \<longrightarrow> wobj w \<in> S)"
proof
  fix w assume "w \<in> set (workers (set_pc i p s'))"
  then have "w \<in> set (workers (set_pc i p s))" using assms(4) by (simp add: set_pc_def)
  from set_pc_objs [OF assms(1) this] obtain v where
    v: "v \<in> set (workers s)" "wobj w = wobj v" "wpc w = wpc v \<or> v = workers s ! i \<and> wpc w = p" by blast
  then show "(wobj w \<in> S \<or> c = Some (wobj w)) \<and> (wpc w \<noteq> WWait \<longrightarrow> wobj w \<in> S)"
    using assms(2,3) by auto
qed

lemma threadEntry_inv:
  assumes inv: "thread_inv s" and i: "i < length (workers s)" and step: "threadEntry i ret s = Some t"
  shows "thread_inv t"
proof -
  let ?w = "workers s ! i" and ?c = "current (cpc s) (todo s)"
  have mem: "?w \<in> set (workers s)" using i by simp
  have lock: "holders (workers s) + (if ?c = None then 0 else 1) = (if gStartupMutex s then 1 else (0::nat))"
    and ws: "\<forall>w \<in> set (workers s). (wobj w \<in> started s \<or> ?c = Some (wobj w)) \<and>
        (wpc w \<noteq> WWait \<longrightarrow> wobj w \<in> started s)"
    and rest: "rest_ok ?c (todo s)" "gMutex s = holds_gMutex (cpc s)" "stdmap_ok (gThreads s)"
      "runs_after_start (log s)"
    using inv by (auto simp: thread_inv_def)
  show ?thesis
  proof (cases "wpc ?w")
    case WWait
    then have free: "\<not> gStartupMutex s" and t: "t = set_pc i WUnlock (s\<lparr>gStartupMutex := True\<rparr>)"
      using step by (auto simp: threadEntry_def split: if_splits)
    then have none: "?c = None" using lock by (auto split: if_splits)
    let ?s = "s\<lparr>gStartupMutex := True\<rparr>"
    have st: "wobj ?w \<in> started s" using ws mem none by auto
    have "\<forall>w \<in> set (workers (set_pc i WUnlock ?s)). (wobj w \<in> started s \<or> ?c = Some (wobj w)) \<and>
        (wpc w \<noteq> WWait \<longrightarrow> wobj w \<in> started s)"
      by (rule worker_pcs_inv [OF i _ ws]) (use st in simp_all)
    moreover have "started ?s = started s" by (simp add: started_def)
    moreover have "holders (workers (set_pc i WUnlock ?s)) = 1"
      using set_pc_workers [of i ?s WUnlock] lock free i WWait none by simp
    ultimately show ?thesis using rest none by (simp add: thread_inv_def t)
  next
    case WUnlock
    then have t: "t = set_pc i WEnter (s\<lparr>gStartupMutex := False\<rparr>)" using step by (simp add: threadEntry_def)
    let ?s = "s\<lparr>gStartupMutex := False\<rparr>"
    have st: "wobj ?w \<in> started s" using ws mem WUnlock by auto
    have "\<forall>w \<in> set (workers (set_pc i WEnter ?s)). (wobj w \<in> started s \<or> ?c = Some (wobj w)) \<and>
        (wpc w \<noteq> WWait \<longrightarrow> wobj w \<in> started s)"
      by (rule worker_pcs_inv [OF i _ ws]) (use st in simp_all)
    moreover have "started ?s = started s" by (simp add: started_def)
    moreover have "holders (workers (set_pc i WEnter ?s)) + (if ?c = None then 0 else 1) = 0"
      using set_pc_workers [of i ?s WEnter] lock i WUnlock by (simp split: if_splits)
    ultimately show ?thesis using rest by (simp add: thread_inv_def t)
  next
    case WEnter
    let ?s = "s\<lparr>log := log s @ [LRun (wobj ?w)]\<rparr>"
    have t: "t = set_pc i WRun ?s" using step WEnter by (simp add: threadEntry_def)
    have st: "wobj ?w \<in> started s" using ws mem WEnter by auto
    have "\<forall>w \<in> set (workers (set_pc i WRun ?s)). (wobj w \<in> started s \<or> ?c = Some (wobj w)) \<and>
        (wpc w \<noteq> WWait \<longrightarrow> wobj w \<in> started s)"
      by (rule worker_pcs_inv [OF i _ ws]) (use st in simp_all)
    moreover have "holders (workers (set_pc i WRun ?s)) = holders (workers s)"
      using set_pc_workers [of i ?s WRun] i WEnter by simp
    ultimately show ?thesis using rest lock st by (simp add: thread_inv_def t) (simp add: started_def)
  next
    case WRun
    then have t: "t = set_pc i WDone s" using step by (simp add: threadEntry_def split: if_splits)
    have st: "wobj ?w \<in> started s" using ws mem WRun by auto
    have "\<forall>w \<in> set (workers (set_pc i WDone s)). (wobj w \<in> started s \<or> ?c = Some (wobj w)) \<and>
        (wpc w \<noteq> WWait \<longrightarrow> wobj w \<in> started s)"
      by (rule worker_pcs_inv [OF i _ ws]) (use st in simp_all)
    moreover have "holders (workers (set_pc i WDone s)) = holders (workers s)"
      using set_pc_workers [of i s WDone] i WRun by simp
    ultimately show ?thesis using rest lock by (simp add: thread_inv_def t)
  next
    case WDone
    then show ?thesis using step by (simp add: threadEntry_def)
  qed
qed

lemma thread_step_inv: "thread_inv s \<Longrightarrow> thread_step s t \<Longrightarrow> thread_inv t"
  by (auto elim!: thread_stepE dest: caller_step_inv threadEntry_inv)

interpretation startup: inductive_invariant "\<lambda>s. \<exists>cs. paired cs \<and> s = thread_init cs" thread_step thread_inv
  by unfold_locales (auto simp: thread_inv_init thread_step_inv)

lemma thread_reach_paired:
  "thread_reach cs s \<Longrightarrow> paired cs \<Longrightarrow> reach (\<lambda>s. \<exists>cs. paired cs \<and> s = thread_init cs) thread_step s"
  by (induction rule: reach.induct) (auto intro: reach_init reach_step)

lemmas startup_inv = startup.reach_inv [OF thread_reach_paired]

section \<open>A worker that has entered \<open>run\<close> is in the log\<close>

definition logged :: "tstate \<Rightarrow> bool" where
  "logged s \<longleftrightarrow> (\<forall>w \<in> set (workers s). wpc w \<in> {WRun, WDone} \<longrightarrow> LRun (wobj w) \<in> set (log s))"

lemma logged_caller: "logged s \<Longrightarrow> caller_step tid created s = Some t \<Longrightarrow> logged t"
  by (fastforce simp: caller_step_def begin_call_def logged_def thread_create_def
      split: caller_pc.splits list.splits tcall.splits if_splits option.splits)

lemma logged_set_pc:
  assumes "logged s" and "i < length (workers s)" and "set (log s) \<subseteq> set (log s')"
    and "workers s' = workers s"
    and "p \<in> {WRun, WDone} \<Longrightarrow> LRun (wobj (workers s ! i)) \<in> set (log s')"
  shows "logged (set_pc i p s')"
  unfolding logged_def
proof
  fix w assume "w \<in> set (workers (set_pc i p s'))"
  then obtain v where "v \<in> set (workers s)" "wobj w = wobj v" "wpc w = wpc v \<or> v = workers s ! i \<and> wpc w = p"
    using set_pc_objs [of i s' w p] assms(2,4) by auto
  then show "wpc w \<in> {WRun, WDone} \<longrightarrow> LRun (wobj w) \<in> set (log (set_pc i p s'))"
    using assms(1,3,5) by (auto simp: logged_def)
qed

lemma logged_worker:
  assumes "logged s" and i: "i < length (workers s)" and step: "threadEntry i ret s = Some t"
  shows "logged t"
proof (cases "wpc (workers s ! i)")
  case WRun
  then have "LRun (wobj (workers s ! i)) \<in> set (log s)" using assms by (simp add: logged_def)
  then show ?thesis using WRun step by (auto simp: threadEntry_def split: if_splits intro!: logged_set_pc [OF assms(1) i])
qed (use step in \<open>auto simp: threadEntry_def split: if_splits intro!: logged_set_pc [OF assms(1) i]\<close>)

interpretation logging: inductive_invariant "\<lambda>s. s = thread_init cs" thread_step logged
proof unfold_locales
  fix s t
  show "s = thread_init cs \<Longrightarrow> logged s" by (simp add: logged_def thread_init_def)
  show "logged s \<Longrightarrow> thread_step s t \<Longrightarrow> logged t"
    by (auto elim!: thread_stepE dest: logged_caller logged_worker)
qed

section \<open>The number of steps\<close>

fun call_weight :: "tcall \<Rightarrow> nat" where
  "call_weight (CallNew ob) = 9"
| "call_weight (CallStart ob) = 1"
| "call_weight (CallDelete ob) = 3"

fun caller_weight :: "caller_pc \<Rightarrow> nat" where
  "caller_weight Idle = 0"
| "caller_weight (CtorCreate ob) = 8"
| "caller_weight (CtorLock ob) = 3"
| "caller_weight (CtorInsert ob) = 2"
| "caller_weight (CtorUnlock ob) = 1"
| "caller_weight (DtorErase ob) = 2"
| "caller_weight (DtorUnlock ob) = 1"

fun worker_weight :: "worker_pc \<Rightarrow> nat" where
  "worker_weight WWait = 4"
| "worker_weight WUnlock = 3"
| "worker_weight WEnter = 2"
| "worker_weight WRun = 1"
| "worker_weight WDone = 0"

text \<open>A worker only advances: its program points are ordered by the steps left.\<close>

instantiation worker_pc :: linorder
begin

definition less_eq_worker_pc :: "worker_pc \<Rightarrow> worker_pc \<Rightarrow> bool" where
  "less_eq_worker_pc p q \<longleftrightarrow> worker_weight q \<le> worker_weight p"

definition less_worker_pc :: "worker_pc \<Rightarrow> worker_pc \<Rightarrow> bool" where
  "less_worker_pc p q \<longleftrightarrow> worker_weight q < worker_weight p"

instance
proof
  fix p q :: worker_pc
  show "p \<le> q \<Longrightarrow> q \<le> p \<Longrightarrow> p = q"
    by (cases p; cases q) (simp_all add: less_eq_worker_pc_def)
qed (auto simp: less_eq_worker_pc_def less_worker_pc_def)

end

lemma threadEntry_advances:
  "i < length (workers s) \<Longrightarrow> threadEntry i ret s = Some t \<Longrightarrow>
     \<exists>p s'. t = set_pc i p s' \<and> wpc (workers s ! i) < p \<and>
       workers s' = workers s \<and> todo s' = todo s \<and> cpc s' = cpc s"
  by (cases "wpc (workers s ! i)")
    (fastforce simp: threadEntry_def less_worker_pc_def split: if_splits)+

definition weight :: "tstate \<Rightarrow> nat" where
  "weight s = sum_list (map call_weight (todo s)) + caller_weight (cpc s) +
     sum_list (map (worker_weight \<circ> wpc) (workers s))"

lemma weight_caller: "caller_step tid created s = Some t \<Longrightarrow> weight t < weight s"
  by (auto simp: caller_step_def begin_call_def weight_def thread_create_def
      split: caller_pc.splits list.splits tcall.splits if_splits option.splits)

lemma sum_list_update_weight:
  "i < length ws \<Longrightarrow> sum_list (map f (ws[i := w])) + f (ws ! i) = sum_list (map f ws) + (f w :: nat)"
proof (induction ws arbitrary: i)
  case (Cons x ws)
  then show ?case by (cases i) auto
qed simp

lemma weight_set_pc:
  "i < length (workers s) \<Longrightarrow> wpc (workers s ! i) < p \<Longrightarrow> weight (set_pc i p s) < weight s"
  using sum_list_update_weight [of i "workers s" "worker_weight \<circ> wpc" "(workers s ! i)\<lparr>wpc := p\<rparr>"]
  by (simp add: weight_def set_pc_def less_worker_pc_def)

lemma weight_worker:
  assumes i: "i < length (workers s)" and "threadEntry i ret s = Some t"
  shows "weight t < weight s"
proof -
  from threadEntry_advances [OF assms] obtain p s' where t: "t = set_pc i p s'"
    and p: "wpc (workers s ! i) < p" and s': "workers s' = workers s" "todo s' = todo s" "cpc s' = cpc s"
    by blast
  have "weight s' = weight s" using s' by (simp add: weight_def)
  then show ?thesis using weight_set_pc [of i s' p] i p s' t by simp
qed

lemma worker_can_step:
  "i < length (workers s) \<Longrightarrow> wpc (workers s ! i) \<notin> {WWait, WRun, WDone} \<Longrightarrow> \<exists>t. startup_step s t"
  using startup_worker [of i s] by (cases "wpc (workers s ! i)") (auto simp: threadEntry_def)

lemma holder_can_step:
  assumes "0 < holders (workers s)"
  shows "\<exists>t. startup_step s t"
proof -
  have "\<exists>w \<in> set (workers s). wpc w = WUnlock"
    using assms by (auto simp: holders_def filter_empty_conv)
  then obtain i where "i < length (workers s)" "wpc (workers s ! i) = WUnlock"
    by (metis in_set_conv_nth)
  then show ?thesis using worker_can_step by auto
qed

lemma caller_can_step:
  "caller_step tid created s \<noteq> None \<Longrightarrow> \<exists>t. startup_step s t"
  using startup_caller by blast

lemma stuck_caller:
  assumes inv: "thread_inv s" and stuck: "\<nexists>t. startup_step s t"
  shows "cpc s = Idle \<and> todo s = []"
proof -
  have no: "caller_step 0 False s = None" using stuck caller_can_step by metis
  have free: "holders (workers s) = 0" using stuck holder_can_step by blast
  have g: "gMutex s = holds_gMutex (cpc s)"
    and l: "holders (workers s) + (if current (cpc s) (todo s) = None then 0 else 1) = (if gStartupMutex s then 1 else (0::nat))"
    using inv by (auto simp: thread_inv_def)
  have idle: "cpc s = Idle" using no g by (auto simp: caller_step_def thread_create_def split: caller_pc.splits if_splits)
  moreover have "todo s = []"
  proof (cases "todo s")
    case (Cons c cs)
    then show ?thesis using no g l free idle by (cases c) (auto simp: caller_step_def begin_call_def split: if_splits)
  qed
  ultimately show ?thesis by simp
qed

lemma stuck_workers:
  assumes inv: "thread_inv s" and stuck: "\<nexists>t. startup_step s t" and w: "w \<in> set (workers s)"
  shows "wpc w \<in> {WRun, WDone}"
proof -
  obtain i where i: "i < length (workers s)" "w = workers s ! i" using w by (metis in_set_conv_nth)
  have "holders (workers s) = 0" using stuck holder_can_step by blast
  moreover have "current (cpc s) (todo s) = None" using stuck_caller [OF inv stuck] by simp
  ultimately have "\<not> gStartupMutex s" using inv by (auto simp: thread_inv_def split: if_splits)
  then have "wpc w \<noteq> WWait"
    using startup_worker [OF i(1)] i stuck by (auto simp: threadEntry_def)
  then show ?thesis using worker_can_step [OF i(1)] i(2) stuck by blast
qed

lemma stuck_free:
  assumes inv: "thread_inv s" and stuck: "\<nexists>t. startup_step s t"
  shows "\<not> gStartupMutex s \<and> \<not> gMutex s"
proof -
  have c: "cpc s = Idle" "todo s = []" using stuck_caller [OF inv stuck] by simp_all
  have "holders (workers s) = 0" using stuck holder_can_step by blast
  then show ?thesis using inv c by (auto simp: thread_inv_def split: if_splits)
qed

text \<open>When not even a return of some \<open>run\<close> is left, all of them have returned.\<close>

lemma stopped_startup: "\<nexists>t. thread_step s t \<Longrightarrow> \<nexists>t. startup_step s t"
  using startup_thread_step by blast

lemma stopped_workers:
  assumes inv: "thread_inv s" and stuck: "\<nexists>t. thread_step s t" and w: "w \<in> set (workers s)"
  shows "wpc w = WDone"
proof -
  obtain i where i: "i < length (workers s)" "w = workers s ! i" using w by (metis in_set_conv_nth)
  have "wpc w \<noteq> WRun" using by_worker [OF i(1), of True] i(2) stuck by (auto simp: threadEntry_def)
  then show ?thesis using stuck_workers [OF inv stopped_startup [OF stuck] w] by simp
qed

section \<open>A second construction before the first start\<close>

definition blocked :: "obj \<Rightarrow> tcall list \<Rightarrow> tstate \<Rightarrow> bool" where
  "blocked a cs s \<longleftrightarrow> log s = [] \<and> (\<forall>w \<in> set (workers s). wpc w = WWait) \<and>
     (cpc s = Idle \<and> todo s = CallNew a # cs \<and> workers s = [] \<or> todo s = cs \<and> gStartupMutex s)"

lemma blocked_caller:
  "blocked a (CallNew b # cs) s \<Longrightarrow> caller_step tid created s = Some t \<Longrightarrow> blocked a (CallNew b # cs) t"
  by (auto simp: blocked_def caller_step_def begin_call_def thread_create_def
      split: caller_pc.splits if_splits option.splits)

lemma blocked_worker:
  "blocked a (CallNew b # cs) s \<Longrightarrow> i < length (workers s) \<Longrightarrow> threadEntry i ret s = Some t \<Longrightarrow>
     blocked a (CallNew b # cs) t"
  by (auto simp: blocked_def threadEntry_def split: worker_pc.splits if_splits)

interpretation blocking: inductive_invariant
  "\<lambda>s. s = thread_init (CallNew a # CallNew b # cs)" thread_step "blocked a (CallNew b # cs)"
proof unfold_locales
  fix s t
  show "s = thread_init (CallNew a # CallNew b # cs) \<Longrightarrow> blocked a (CallNew b # cs) s"
    by (simp add: blocked_def thread_init_def)
  show "blocked a (CallNew b # cs) s \<Longrightarrow> thread_step s t \<Longrightarrow> blocked a (CallNew b # cs) t"
    by (auto elim!: thread_stepE dest: blocked_caller blocked_worker)
qed

section \<open>Schedules\<close>

text \<open>A schedule makes the order of the steps explicit, so that runs can be computed.\<close>

datatype sched = Caller pthread_t bool | Worker nat | Return nat

definition sched_step :: "sched \<Rightarrow> tstate \<Rightarrow> tstate option" where
  "sched_step c s =
     (case c of Caller tid created \<Rightarrow> caller_step tid created s
      | Worker i \<Rightarrow> if i < length (workers s) then threadEntry i False s else None
      | Return i \<Rightarrow> if i < length (workers s) then threadEntry i True s else None)"

fun exec :: "sched list \<Rightarrow> tstate \<Rightarrow> tstate option" where
  "exec [] s = Some s"
| "exec (c # cs) s = (case sched_step c s of None \<Rightarrow> None | Some t \<Rightarrow> exec cs t)"

lemma sched_step_thread_step: "sched_step c s = Some t \<Longrightarrow> thread_step s t"
  by (auto simp: sched_step_def split: sched.splits if_splits intro: thread_step.intros)

lemma exec_reach: "thread_reach prog s \<Longrightarrow> exec cs s = Some t \<Longrightarrow> thread_reach prog t"
  by (induction cs arbitrary: s)
    (auto split: option.splits dest: sched_step_thread_step intro: reach_step)

lemma exec_init_reach: "exec cs (thread_init prog) = Some t \<Longrightarrow> thread_reach prog t"
  by (rule exec_reach [OF reach_init]) simp_all

definition one_thread :: "sched list" where
  "one_thread = [Caller 0 False, Caller 7 True, Caller 0 False, Caller 0 False, Caller 0 False,
     Caller 0 False, Worker 0, Worker 0, Worker 0]"

section \<open>Properties\<close>

text \<open>C9: whatever the interleaving of the threads and the answers of \<open>pthread_create\<close>, when
  every object is started before the next one is constructed, \<open>run\<close> of an object is entered
  only after \<open>start\<close> was called on it, so never on an object whose derived constructor has not
  finished, and at most one of the created threads (the constructing one is not counted) is
  between its \<open>pthread_mutex_lock(&gStartupMutex)\<close> and the unlock that follows.\<close>

theorem run_after_start:
  assumes "reach (\<lambda>s. s = thread_init calls) thread_step s" and "paired calls"
  shows "(k < length (log s) \<and> log s ! k = LRun ob \<longrightarrow> LStart ob \<in> set (take k (log s))) \<and>
    holders (workers s) \<le> 1"
  using startup_inv [OF assms] by (auto simp: thread_inv_def runs_after_start_def split: if_splits)

theorem run_after_start_witness:
  "\<exists>s. exec one_thread (thread_init [CallNew 1, CallStart 1]) = Some s \<and>
     log s = [LStart 1, LRun 1] \<and> LStart 1 \<in> set (take 1 (log s))"
proof -
  have "map_option log (exec one_thread (thread_init [CallNew 1, CallStart 1])) = Some [LStart 1, LRun 1]"
    by code_simp
  then obtain s where s: "exec one_thread (thread_init [CallNew 1, CallStart 1]) = Some s"
    and l: "log s = [LStart 1, LRun 1]" by (auto simp del: exec.simps)
  have p: "paired [CallNew 1, CallStart 1]" by simp
  show ?thesis
    using run_after_start [OF exec_init_reach [OF s] p, of 1 1] s l by (simp del: exec.simps)
qed

text \<open>C17: a program that starts each object before it constructs the next one cannot block, even
  if no \<open>run\<close> ever returns. Every step, the return of a
  \<open>run\<close> included, decreases a weight fixed by the calls left. A reachable state in which only
  returns of \<open>run\<close> are left to happen (or nothing) has no call left, both mutexes are free, and
  every created thread has entered \<open>run\<close> of its object; so a \<open>run\<close> that loops for ever holds up no
  construction, start or deletion, of its own object or another. And when nothing at all is left
  to happen, every \<open>run\<close> has returned.\<close>

theorem startup_completes:
  assumes "reach (\<lambda>s. s = thread_init calls) thread_step s" and "paired calls"
  shows "(\<forall>t. thread_step s t \<longrightarrow> weight t < weight s) \<and>
    ((\<nexists>t. startup_step s t) \<longrightarrow> cpc s = Idle \<and> todo s = [] \<and> \<not> gStartupMutex s \<and> \<not> gMutex s \<and>
      (\<forall>w \<in> set (workers s). wpc w \<in> {WRun, WDone} \<and> LRun (wobj w) \<in> set (log s))) \<and>
    ((\<nexists>t. thread_step s t) \<longrightarrow> cpc s = Idle \<and> todo s = [] \<and>
      (\<forall>w \<in> set (workers s). wpc w = WDone \<and> LRun (wobj w) \<in> set (log s)))"
proof -
  have inv: "thread_inv s" by (rule startup_inv [OF assms])
  have log: "logged s" by (rule logging.reach_inv [OF assms(1)])
  have w: "weight t < weight s" if "thread_step s t" for t
    using that by (auto elim!: thread_stepE dest: weight_caller weight_worker)
  have r: "wpc w \<in> {WRun, WDone} \<and> LRun (wobj w) \<in> set (log s)"
    if "\<nexists>t. startup_step s t" "w \<in> set (workers s)" for w
    using stuck_workers [OF inv that] log that(2) by (auto simp: logged_def)
  have d: "wpc w = WDone \<and> LRun (wobj w) \<in> set (log s)"
    if "\<nexists>t. thread_step s t" "w \<in> set (workers s)" for w
    using stopped_workers [OF inv that] log that(2) by (simp add: logged_def)
  show ?thesis
    using w r d stuck_caller [OF inv] stuck_free [OF inv] stopped_startup by blast
qed

theorem startup_completes_witness:
  "\<exists>s t. exec one_thread (thread_init [CallNew 1, CallStart 1]) = Some s \<and> threadEntry 0 True s = Some t \<and>
     weight t < weight s \<and> (\<nexists>t. startup_step s t) \<and> todo s = [] \<and> LRun 1 \<in> set (log s)"
proof -
  let ?init = "thread_init [CallNew 1, CallStart 1]"
  have "map_option (\<lambda>s. (cpc s, todo s, map wobj (workers s), map wpc (workers s), map_option log (sched_step (Return 0) s)))
      (exec one_thread ?init) = Some (Idle, [], [1], [WRun], Some [LStart 1, LRun 1])" by code_simp
  then obtain s t where s: "exec one_thread ?init = Some s" and t: "sched_step (Return 0) s = Some t"
    and c: "cpc s = Idle" "todo s = []" and w: "map wobj (workers s) = [1]" "map wpc (workers s) = [WRun]"
    by (auto simp del: exec.simps)
  have p: "paired [CallNew 1, CallStart 1]" by simp
  note sc = startup_completes [OF exec_init_reach [OF s] p]
  obtain v where v: "workers s = [v]" "wobj v = 1" "wpc v = WRun" using w by auto
  then have stuck: "\<nexists>t. startup_step s t"
    using c by (auto elim!: startup_stepE simp: caller_step_def begin_call_def threadEntry_def)
  have "threadEntry 0 True s = Some t" using t by (simp add: sched_step_def split: if_splits)
  then show ?thesis using sc s stuck c v sched_step_thread_step [OF t] by auto
qed

text \<open>C34: constructing a second object before the first one is started blocks for ever: in every
  reachable state the second constructor is still to begin, no object is started and no
  \<open>run\<close> is entered.\<close>

theorem second_construction_blocks:
  assumes "reach (\<lambda>s. s = thread_init (CallNew a # CallNew b # calls)) thread_step s"
  shows "CallNew b \<in> set (todo s) \<and> log s = [] \<and> (\<forall>w \<in> set (workers s). wpc w = WWait)"
  using blocking.reach_inv [OF assms] by (auto simp: blocked_def)

theorem second_construction_blocks_witness:
  "\<exists>s. exec (take 5 one_thread) (thread_init [CallNew 1, CallNew 2, CallStart 1, CallStart 2]) = Some s \<and>
     length (workers s) = 1 \<and> CallNew 2 \<in> set (todo s) \<and> log s = []"
proof -
  let ?p = "[CallNew 1, CallNew 2, CallStart 1, CallStart 2]"
  have "map_option (length \<circ> workers) (exec (take 5 one_thread) (thread_init ?p)) = Some 1" by code_simp
  then obtain s where s: "exec (take 5 one_thread) (thread_init ?p) = Some s"
    and w: "length (workers s) = 1" by (auto simp del: exec.simps)
  show ?thesis using second_construction_blocks [OF exec_init_reach [OF s]] s w by blast
qed

end
