(* ===== verification/NativeService.thy ===== *)
theory NativeService
  imports Connector CStrings
begin

text \<open>
  \<open>jni/main/VRNativeService.cpp\<close>: the privileged service that reads and writes device nodes,
  runs commands and sets properties for the Java side. What the operating system answers is the
  record \<open>os\<close>, a parameter of the operations. An operation returns its \<open>int\<close>, the output
  string (a \<open>String8&\<close> argument, unchanged on the error paths) and the system calls it makes,
  with the descriptors they return, in order. A \<open>String8\<close> can hold NUL bytes; where the code
  passes \<open>string()\<close> to a C function the model takes its C string.
\<close>

definition NO_ERROR :: int where "NO_ERROR = 0"

definition ERR_PARM :: int where "ERR_PARM = -1"

definition ERR_PERM :: int where "ERR_PERM = -2"

definition ERR_NOFOUND :: int where "ERR_NOFOUND = -3"

definition ERR_RDWR :: int where "ERR_RDWR = -4"

lemmas err_defs = NO_ERROR_def ERR_PARM_def ERR_PERM_def ERR_NOFOUND_def ERR_RDWR_def

datatype oflag = O_RDONLY | O_WRONLY

record os =
  os_access :: "string \<Rightarrow> int"
  os_open :: "string \<Rightarrow> oflag \<Rightarrow> int"
  os_read :: "int \<Rightarrow> read_result"              \<comment> \<open>what the descriptor holds\<close>
  os_write :: "int \<Rightarrow> char list \<Rightarrow> int"
  os_popen :: "string \<Rightarrow> char list option"       \<comment> \<open>the bytes the command prints\<close>
  os_property_get :: "string \<Rightarrow> int \<times> string"    \<comment> \<open>the status and the text stored in the buffer\<close>
  os_property_set :: "string \<Rightarrow> string \<Rightarrow> int"
  os_sched :: "int \<Rightarrow> int \<Rightarrow> int \<Rightarrow> int \<times> int"     \<comment> \<open>the result and \<open>errno\<close>\<close>

datatype os_call =
    SysAccess string
  | SysOpen string oflag int
  | SysRead int nat
  | SysWrite int "char list"
  | SysClose int
  | SysPopen string
  | SysPclose
  | SysPropGet string
  | SysPropSet string string
  | SysSched int int int
  | SysLock
  | SysUnlock

section \<open>The node white list\<close>

definition kCpuMaxCount :: nat where "kCpuMaxCount = 10"

definition gCpuNodeNames :: "string list" where
  "gCpuNodeNames = [''cpufreq/scaling_min_freq'', ''cpufreq/scaling_available_frequencies'',
     ''cpufreq/scaling_cur_freq'']"

definition kGpuMaxCount :: nat where "kGpuMaxCount = 4"

definition gGpuNodeNames :: "string list" where
  "gGpuNodeNames = [''msm_cmd_autorefresh_en'']"

definition cpu_node :: "nat \<Rightarrow> nat \<Rightarrow> string" where
  "cpu_node i j = snprintf 127
     (''/sys/devices/system/cpu/cpu'' @ show_nat i @ ''/'' @ gCpuNodeNames ! j)"

definition gpu_node :: "nat \<Rightarrow> nat \<Rightarrow> string" where
  "gpu_node i j = snprintf 127
     (''/sys/devices/virtual/graphics/fb'' @ show_nat i @ ''/'' @ gGpuNodeNames ! j)"

definition CheckAccessNodePerm :: "string option \<Rightarrow> bool" where
  "CheckAccessNodePerm nodepath =
     (case nodepath of
        None \<Rightarrow> False
      | Some p \<Rightarrow>
          list_ex (\<lambda>i. list_ex (\<lambda>j. strcmp_eq (cpu_node i j) p) [0..<length gCpuNodeNames]) [0..<kCpuMaxCount] \<or>
          list_ex (\<lambda>i. list_ex (\<lambda>j. strcmp_eq (gpu_node i j) p) [0..<length gGpuNodeNames]) [0..<kGpuMaxCount])"

definition gSysCallCommands :: "string list" where
  "gSysCallCommands = [''dfu-util'', ''service call'']"

definition CheckSyscallPerm :: "string option \<Rightarrow> bool" where
  "CheckSyscallPerm cmd =
     (case cmd of
        None \<Rightarrow> False
      | Some c \<Rightarrow> list_ex (\<lambda>temp. strncmp_eq temp c (length temp)) gSysCallCommands)"

section \<open>The operations\<close>

definition getSystemNode :: "os \<Rightarrow> string \<Rightarrow> string \<Rightarrow> fault + (int \<times> string \<times> os_call list)" where
  "getSystemNode os path value =
     (let p = cstr path; called = [SysAccess p]
      in if os_access os p < 0 then Inr (ERR_NOFOUND, value, called)
         else if \<not> CheckAccessNodePerm (Some p) then Inr (ERR_PERM, value, called)
         else
           (let fd = os_open os p O_RDONLY; called = called @ [SysOpen p O_RDONLY fd]
            in if fd < 0 then Inr (ERR_PERM, value, called)
               else
                 (let called = called @ [SysRead fd 128, SysClose fd]
                  in case sys_read 128 (os_read os fd) of
                       ReadErr \<Rightarrow> Inr (ERR_RDWR, value, called)
                     | ReadBytes bs \<Rightarrow>
                         fbind (read_cstr (read_into (replicate 128 NUL) bs)) (\<lambda>temp.
                           Inr (NO_ERROR, temp, called)))))"

definition setSystemNode :: "os \<Rightarrow> string \<Rightarrow> string \<Rightarrow> int \<times> os_call list" where
  "setSystemNode os path value =
     (let p = cstr path; called = [SysAccess p]
      in if os_access os p < 0 then (ERR_NOFOUND, called)
         else if \<not> CheckAccessNodePerm (Some p) then (ERR_PERM, called)
         else
           (let fd = os_open os p O_WRONLY; called = called @ [SysOpen p O_WRONLY fd]
            in if fd < 0 then (ERR_PERM, called)
               else
                 (let called = called @ [SysWrite fd value, SysClose fd]
                  in if os_write os fd value < 0 then (ERR_RDWR, called) else (NO_ERROR, called))))"

text \<open>The loop over the lines of the command's output.\<close>

definition INT_MAX :: int where
  "INT_MAX = 2147483647"

function read_lines :: "char list \<Rightarrow> string \<Rightarrow> int \<Rightarrow> fault + (string \<times> int)" where
  "read_lines out result acc =
     (if out = [] then Inr (result, acc)
      else (case fgets 1023 out of
          (line, rest) \<Rightarrow>
            (let len = int (length (cstr line))
             in if acc + len > INT_MAX then Inl SignedOverflow
                else read_lines rest (result @ cstr line) (acc + len))))"
  by auto
termination
  by (relation "measure (\<lambda>(out, result, acc). length out)")
    (auto simp: numeral_eq_Suc dest: fgets_progress [of _ "1022", simplified numeral_eq_Suc, OF _ sym])

definition systemCall :: "os \<Rightarrow> string \<Rightarrow> string \<Rightarrow> fault + (int \<times> string \<times> os_call list)" where
  "systemCall os cmd result =
     (let c = cstr cmd
      in if \<not> CheckSyscallPerm (Some c) then Inr (-1, result, [])
         else
           (case os_popen os c of
              None \<Rightarrow> Inr (-1, result, [SysPopen c])
            | Some out \<Rightarrow>
                fbind (read_lines out result 0) (\<lambda>(result', acc).
                  Inr (acc, result', [SysPopen c, SysPclose]))))"

definition getProperty :: "os \<Rightarrow> string \<Rightarrow> string \<Rightarrow> int \<times> string \<times> os_call list" where
  "getProperty os key value =
     (let k = cstr key; (status, temp) = os_property_get os k;
          called = [SysLock, SysPropGet k, SysUnlock]
      in if status < 0 then (-1, value, called) else (status, cstr temp, called))"

definition setProperty :: "os \<Rightarrow> string \<Rightarrow> string \<Rightarrow> int \<times> os_call list" where
  "setProperty os key value =
     (let k = cstr key; v = cstr value; status = os_property_set os k v;
          called = [SysLock, SysPropSet k v, SysUnlock]
      in if status < 0 then (-1, called) else (status, called))"

definition setThreadScheduler :: "os \<Rightarrow> int \<Rightarrow> int \<Rightarrow> int \<Rightarrow> int \<times> os_call list" where
  "setThreadScheduler os tid policy pri =
     (case os_sched os tid policy pri of
        (ret, errno) \<Rightarrow> (if ret = 0 then 0 else errno * -1, [SysSched tid policy pri]))"

record 'b vrservice =
  mIPostEvent :: "'b option"

definition new_VRNativeService :: "'b vrservice" where
  "new_VRNativeService = \<lparr>mIPostEvent = None\<rparr>"

text \<open>The destructor has no body: the reference of \<open>mIPostEvent\<close> is dropped.\<close>

definition delete_VRNativeService :: "'b vrservice \<Rightarrow> 'b vrservice" where
  "delete_VRNativeService svc = svc\<lparr>mIPostEvent := None\<rparr>"

definition setPostEventObj :: "'b option \<Rightarrow> 'b vrservice \<Rightarrow> int \<times> 'b vrservice" where
  "setPostEventObj iPostEvent svc = (0, svc\<lparr>mIPostEvent := iPostEvent\<rparr>)"

definition getReporter :: "'b vrservice \<Rightarrow> 'b option" where
  "getReporter svc = mIPostEvent svc"

text \<open>The static pointer \<open>s_vr\<close> and the service it points to.\<close>

definition getSingleInstance :: "'b vrservice option \<Rightarrow> 'b vrservice \<times> 'b vrservice option" where
  "getSingleInstance s_vr =
     (case s_vr of None \<Rightarrow> (new_VRNativeService, Some new_VRNativeService) | Some vr \<Rightarrow> (vr, s_vr))"

section \<open>The white lists\<close>

lemma show_nat_digit: "i < 10 \<Longrightarrow> show_nat i = [digit i]"
  by (subst show_nat.simps) simp

lemma cpu_node_eq:
  assumes "i < 10"
  shows "cpu_node i 0 = ''/sys/devices/system/cpu/cpu'' @ show_nat i @ ''/cpufreq/'' @ ''scaling_min_freq''"
    and "cpu_node i 1 = ''/sys/devices/system/cpu/cpu'' @ show_nat i @ ''/cpufreq/'' @ ''scaling_available_frequencies''"
    and "cpu_node i 2 = ''/sys/devices/system/cpu/cpu'' @ show_nat i @ ''/cpufreq/'' @ ''scaling_cur_freq''"
  using assms by (simp_all add: cpu_node_def snprintf_def gCpuNodeNames_def show_nat_digit)

lemma gpu_node_eq:
  "i < 4 \<Longrightarrow> gpu_node i 0 = ''/sys/devices/virtual/graphics/fb'' @ show_nat i @ ''/msm_cmd_autorefresh_en''"
  by (simp add: gpu_node_def snprintf_def gGpuNodeNames_def show_nat_digit)

definition white_listed :: "string \<Rightarrow> bool" where
  "white_listed p \<longleftrightarrow>
     (\<exists>i < 10. \<exists>n \<in> {''scaling_min_freq'', ''scaling_available_frequencies'', ''scaling_cur_freq''}.
        p = ''/sys/devices/system/cpu/cpu'' @ show_nat i @ ''/cpufreq/'' @ n) \<or>
     (\<exists>i < 4. p = ''/sys/devices/virtual/graphics/fb'' @ show_nat i @ ''/msm_cmd_autorefresh_en'')"

lemma list_ex_strcmp:
  "list_ex (\<lambda>j. strcmp_eq (f j) p) [0..<3] \<longleftrightarrow> p = f 0 \<or> p = f 1 \<or> p = f 2"
  "list_ex (\<lambda>j. strcmp_eq (f j) p) [0..<1] \<longleftrightarrow> p = f 0"
  by (auto simp: strcmp_eq_def upt_rec numeral_eq_Suc)

lemma CheckAccessNodePerm_iff: "CheckAccessNodePerm (Some p) \<longleftrightarrow> white_listed p"
proof -
  have n: "length gCpuNodeNames = 3" "length gGpuNodeNames = 1"
    by (simp_all add: gCpuNodeNames_def gGpuNodeNames_def)
  have "CheckAccessNodePerm (Some p) \<longleftrightarrow>
      (\<exists>i < 10. p = cpu_node i 0 \<or> p = cpu_node i 1 \<or> p = cpu_node i 2) \<or> (\<exists>i < 4. p = gpu_node i 0)"
    unfolding CheckAccessNodePerm_def option.case n list_ex_strcmp kCpuMaxCount_def kGpuMaxCount_def
    by (simp only: list_ex_iff set_upt atLeastLessThan_iff Bex_def le0 simp_thms)
  then show ?thesis
    unfolding white_listed_def by (simp only: cpu_node_eq gpu_node_eq bex_simps simp_thms cong: conj_cong)
qed

lemma CheckSyscallPerm_iff:
  "CheckSyscallPerm (Some c) \<longleftrightarrow> take 8 c = ''dfu-util'' \<or> take 12 c = ''service call''"
  by (auto simp: CheckSyscallPerm_def gSysCallCommands_def strncmp_eq_take numeral_eq_Suc)

section \<open>The protocol of a guarded node access\<close>

fun os_fds :: "os_call \<Rightarrow> int set \<Rightarrow> int set" where
  "os_fds (SysOpen p f fd) S = (if fd < 0 then S else insert fd S)"
| "os_fds (SysClose fd) S = S - {fd}"
| "os_fds _ S = S"

fun on_node :: "int \<Rightarrow> os_call \<Rightarrow> bool" where
  "on_node fd (SysRead fd' n) = (fd' = fd)"
| "on_node fd (SysWrite fd' bs) = (fd' = fd)"
| "on_node fd _ = False"

definition node_protocol :: "(string \<Rightarrow> bool) \<Rightarrow> string \<Rightarrow> os_call list \<Rightarrow> bool" where
  "node_protocol ok p calls \<longleftrightarrow> calls = [SysAccess p] \<or>
     ok p \<and> (\<exists>f fd. fd < 0 \<and> calls = [SysAccess p, SysOpen p f fd] \<or>
       0 \<le> fd \<and> (\<exists>e. on_node fd e \<and> calls = [SysAccess p, SysOpen p f fd, e, SysClose fd]))"

lemma on_node_fds: "on_node fd e \<Longrightarrow> os_fds e S = S"
  by (cases e) auto

lemma node_protocol_fds:
  assumes "node_protocol ok p calls" and "\<And>q f fd. SysOpen q f fd \<in> set calls \<Longrightarrow> fd \<notin> S"
  shows "fold os_fds calls S = S"
  using assms(1) unfolding node_protocol_def
proof (elim disjE exE conjE)
  fix f fd e
  assume e: "on_node fd e" "0 \<le> fd" and c: "calls = [SysAccess p, SysOpen p f fd, e, SysClose fd]"
  have "fd \<notin> S" using assms(2) [of p f fd] c by simp
  then show ?thesis using e c by (simp add: on_node_fds)
qed simp_all

text \<open>
  What the two node operations share: \<open>calls a p r\<close> holds when the operation on path \<open>p\<close> with
  the other arguments \<open>a\<close> returns \<open>r\<close> and makes the given system calls.
\<close>

locale guarded_access =
  fixes ok :: "string \<Rightarrow> bool" and run :: "'a \<Rightarrow> string \<Rightarrow> int \<Rightarrow> os_call list \<Rightarrow> bool"
  assumes protocol: "run a path r calls \<Longrightarrow> node_protocol ok (cstr path) calls"
    and refused: "run a path r calls \<Longrightarrow> \<not> ok (cstr path) \<Longrightarrow> r = ERR_PERM \<or> r = ERR_NOFOUND"
begin

lemma only_allowed:
  "run a path r calls \<Longrightarrow> SysOpen q f fd \<in> set calls \<Longrightarrow> q = cstr path \<and> ok q"
  using protocol [of a path r calls] by (auto simp: node_protocol_def)

lemma denied:
  "run a path r calls \<Longrightarrow> \<not> ok (cstr path) \<Longrightarrow> calls = [SysAccess (cstr path)] \<and> (r = ERR_PERM \<or> r = ERR_NOFOUND)"
  using protocol [of a path r calls] refused [of a path r calls] by (auto simp: node_protocol_def)

lemma balanced:
  "run a path r calls \<Longrightarrow> (\<And>q f fd. SysOpen q f fd \<in> set calls \<Longrightarrow> fd \<notin> S) \<Longrightarrow>
     fold os_fds calls S = S"
  by (rule node_protocol_fds [OF protocol])

lemma writes_own:
  "run a path r calls \<Longrightarrow> SysWrite fd bs \<in> set calls \<Longrightarrow> \<exists>f. SysOpen (cstr path) f fd \<in> set calls"
  using protocol [of a path r calls] by (auto simp: node_protocol_def)

lemma summary:
  assumes "run a path r calls"
  shows "(SysOpen q f fd \<in> set calls \<longrightarrow> q = cstr path \<and> ok q) \<and>
    (\<not> ok (cstr path) \<longrightarrow> calls = [SysAccess (cstr path)] \<and> (r = ERR_PERM \<or> r = ERR_NOFOUND)) \<and>
    ((\<forall>q f fd. SysOpen q f fd \<in> set calls \<longrightarrow> fd \<notin> S) \<longrightarrow> fold os_fds calls S = S)"
proof (intro conjI impI)
  show "fold os_fds calls S = S" if "\<forall>q f fd. SysOpen q f fd \<in> set calls \<longrightarrow> fd \<notin> S"
    by (rule balanced [OF assms]) (use that in blast)
qed (use only_allowed [OF assms] denied [OF assms] in blast)+

end

definition get_runs :: "os \<times> string \<Rightarrow> string \<Rightarrow> int \<Rightarrow> os_call list \<Rightarrow> bool" where
  "get_runs a path r calls \<longleftrightarrow> (\<exists>v. getSystemNode (fst a) path (snd a) = Inr (r, v, calls))"

definition set_runs :: "os \<times> string \<Rightarrow> string \<Rightarrow> int \<Rightarrow> os_call list \<Rightarrow> bool" where
  "set_runs a path r calls \<longleftrightarrow> setSystemNode (fst a) path (snd a) = (r, calls)"

interpretation node_get: guarded_access white_listed get_runs
proof unfold_locales
  fix a path r calls
  assume g: "get_runs a path r calls"
  then show "node_protocol white_listed (cstr path) calls"
    by (auto simp: get_runs_def getSystemNode_def node_protocol_def CheckAccessNodePerm_iff Let_def fbind_Inr_iff
        split: if_splits read_result.splits)
  show "r = ERR_PERM \<or> r = ERR_NOFOUND" if "\<not> white_listed (cstr path)"
    using g that by (auto simp: get_runs_def getSystemNode_def CheckAccessNodePerm_iff Let_def split: if_splits)
qed

interpretation node_set: guarded_access white_listed set_runs
proof unfold_locales
  fix a path r calls
  assume s: "set_runs a path r calls"
  then show "node_protocol white_listed (cstr path) calls"
    by (auto simp: set_runs_def setSystemNode_def node_protocol_def CheckAccessNodePerm_iff Let_def
        split: if_splits)
  show "r = ERR_PERM \<or> r = ERR_NOFOUND" if "\<not> white_listed (cstr path)"
    using s that by (auto simp: set_runs_def setSystemNode_def CheckAccessNodePerm_iff Let_def split: if_splits)
qed

section \<open>The output of a command\<close>

declare read_lines.simps [simp del]

lemma no_nul_append: "no_nul (s @ t) \<longleftrightarrow> no_nul s \<and> no_nul t"
  by (auto simp: no_nul_def)

lemma read_lines_no_nul:
  "no_nul out \<Longrightarrow> s \<le> INT_MAX \<Longrightarrow> read_lines out result s =
     (if s + int (length out) > INT_MAX then Inl SignedOverflow
      else Inr (result @ out, s + int (length out)))"
proof (induction out result s rule: read_lines.induct)
  case (1 out result s)
  show ?case
  proof (cases "out = []")
    case True
    with 1(3) show ?thesis by (simp add: read_lines.simps)
  next
    case False
    obtain line rest where f: "fgets 1023 out = (line, rest)" by fastforce
    have out: "out = line @ rest" using fgets_append [of 1023 out] f by simp
    have n: "no_nul line" "no_nul rest" using 1(2) by (simp_all add: out no_nul_append)
    show ?thesis
    proof (cases "s + int (length line) > INT_MAX")
      case True
      then show ?thesis
        using \<open>out \<noteq> []\<close> f n by (subst read_lines.simps) (simp add: Let_def out del: fgets.simps)
    next
      case False
      have "read_lines rest (result @ cstr line) (s + int (length (cstr line))) =
          (if s + int (length (cstr line)) + int (length rest) > INT_MAX then Inl SignedOverflow
           else Inr ((result @ cstr line) @ rest, s + int (length (cstr line)) + int (length rest)))"
        using 1(1) [OF \<open>out \<noteq> []\<close> f [symmetric] refl] n False by simp
      then show ?thesis
        using False \<open>out \<noteq> []\<close> f n by (subst read_lines.simps) (simp add: Let_def out add.assoc)
    qed
  qed
qed

section \<open>The path the Java service uses\<close>

definition MSM_CMD_AUTOREFRESH :: string where
  "MSM_CMD_AUTOREFRESH = ''/sys/class/graphics/fb0/msm_cmd_autorefresh_en''"

lemma java_path_not_listed: "\<not> white_listed MSM_CMD_AUTOREFRESH"
proof -
  have "\<not> white_listed (''/sys/c'' @ s)" for s
    by (auto simp: white_listed_def)
  from this [of "''lass/graphics/fb0/msm_cmd_autorefresh_en''"] show ?thesis
    by (simp add: MSM_CMD_AUTOREFRESH_def)
qed

section \<open>Properties\<close>

definition demo_os :: os where
  "demo_os = \<lparr>os_access = (\<lambda>p. 0), os_open = (\<lambda>p f. 5), os_read = (\<lambda>fd. ReadBytes ''300000 ''),
     os_write = (\<lambda>fd bs. int (length bs)), os_popen = (\<lambda>c. Some ''ok''), os_property_get = (\<lambda>k. (1, ''1'')),
     os_property_set = (\<lambda>k v. 0), os_sched = (\<lambda>t p q. (0, 0))\<rparr>"

definition demo_node :: string where
  "demo_node = ''/sys/devices/system/cpu/cpu3/cpufreq/scaling_min_freq''"

lemma demo_node_listed: "CheckAccessNodePerm (Some demo_node)" "cstr demo_node = demo_node"
  by code_simp+

text \<open>C26: the check of a node path accepts exactly the three frequency files of the processors 0
  to 9 and the refresh file of the frame buffers 0 to 3: the texts the two loops format fit
  their buffer of 127 characters uncut, and no other path equals one of them.\<close>

theorem node_white_list:
  "CheckAccessNodePerm (Some p) \<longleftrightarrow>
     (\<exists>i < 10. \<exists>n \<in> {''scaling_min_freq'', ''scaling_available_frequencies'', ''scaling_cur_freq''}.
        p = ''/sys/devices/system/cpu/cpu'' @ show_nat i @ ''/cpufreq/'' @ n) \<or>
     (\<exists>i < 4. p = ''/sys/devices/virtual/graphics/fb'' @ show_nat i @ ''/msm_cmd_autorefresh_en'')"
  by (simp only: CheckAccessNodePerm_iff white_listed_def)

text \<open>C13: whatever the system answers, reading or writing a node opens no other file than the one
  asked for, and that only when the check accepts it; on a path the check refuses the only call
  is \<open>access\<close> and the result is one of two errors; and after every path through the two
  operations the open descriptors are the ones from before.\<close>

theorem node_access_guarded:
  assumes "getSystemNode os path value = Inr (r, v, calls) \<or> setSystemNode os path value = (r, calls)"
  shows "(SysOpen q f fd \<in> set calls \<longrightarrow> q = cstr path \<and> CheckAccessNodePerm (Some q)) \<and>
    (\<not> CheckAccessNodePerm (Some (cstr path)) \<longrightarrow>
       calls = [SysAccess (cstr path)] \<and> (r = ERR_PERM \<or> r = ERR_NOFOUND)) \<and>
    ((\<forall>q f fd. SysOpen q f fd \<in> set calls \<longrightarrow> fd \<notin> S) \<longrightarrow> fold os_fds calls S = S)"
  using assms
proof
  assume "getSystemNode os path value = Inr (r, v, calls)"
  then have g: "get_runs (os, value) path r calls" by (simp add: get_runs_def)
  show ?thesis
    unfolding CheckAccessNodePerm_iff by (rule node_get.summary [OF g])
next
  assume "setSystemNode os path value = (r, calls)"
  then have s: "set_runs (os, value) path r calls" by (simp add: set_runs_def)
  show ?thesis
    unfolding CheckAccessNodePerm_iff by (rule node_set.summary [OF s])
qed

theorem node_access_guarded_witness:
  "setSystemNode demo_os demo_node ''1'' = (NO_ERROR,
      [SysAccess demo_node, SysOpen demo_node O_WRONLY 5, SysWrite 5 ''1'', SysClose 5]) \<and>
   fold os_fds [SysAccess demo_node, SysOpen demo_node O_WRONLY 5, SysWrite 5 ''1'', SysClose 5] {0, 1} = {0, 1}"
proof -
  let ?calls = "[SysAccess demo_node, SysOpen demo_node O_WRONLY 5, SysWrite 5 ''1'', SysClose 5]"
  have s: "setSystemNode demo_os demo_node ''1'' = (NO_ERROR, ?calls)"
    by (simp add: setSystemNode_def demo_node_listed demo_os_def Let_def)
  have "\<forall>q f fd. SysOpen q f fd \<in> set ?calls \<longrightarrow> fd \<notin> {0, 1}" by simp
  then show ?thesis
    using node_access_guarded [OF disjI2 [OF s], where S = "{0, 1}"] s by blast
qed

text \<open>Reading a node returns no error exactly when the path exists and is accepted, the file
  opens and the read gives bytes with a terminator in the buffer; then the value is the text
  before the first NUL byte. In every other defined case the value is left as it was.\<close>

lemma getSystemNode_success:
  "(\<exists>calls. getSystemNode os path value = Inr (NO_ERROR, v, calls)) \<longleftrightarrow>
     0 \<le> os_access os (cstr path) \<and> CheckAccessNodePerm (Some (cstr path)) \<and>
     0 \<le> os_open os (cstr path) O_RDONLY \<and>
     (\<exists>bs. os_read os (os_open os (cstr path) O_RDONLY) = ReadBytes bs \<and>
        NUL \<in> set (take 128 bs @ replicate (128 - length bs) NUL) \<and> v = cstr (take 128 bs))"
  by (auto simp: getSystemNode_def Let_def err_defs read_cstr_def read_into_def fbind_Inr_iff sys_read_def
      cstr_append_pad split: read_result.splits if_splits)

text \<open>C36: reading a node is undefined exactly when the path exists and is accepted, the file
  opens, and it holds at least the 128 bytes the code asks \<open>read\<close> for with no NUL among the
  first 128: then \<open>read\<close> fills all of \<open>temp\<close> and the assignment to the value reads past its end.
  In every other case the operation is defined.\<close>

theorem getSystemNode_overread:
  "(getSystemNode os path value = Inl OverRead \<longleftrightarrow>
     0 \<le> os_access os (cstr path) \<and> CheckAccessNodePerm (Some (cstr path)) \<and>
     0 \<le> os_open os (cstr path) O_RDONLY \<and>
     (\<exists>bs. os_read os (os_open os (cstr path) O_RDONLY) = ReadBytes bs \<and>
        128 \<le> length bs \<and> no_nul (take 128 bs))) \<and>
   (getSystemNode os path value \<noteq> Inl OverRead \<longrightarrow> returns (getSystemNode os path value))"
  by (auto simp: getSystemNode_def Let_def read_cstr_def read_into_def no_nul_def sys_read_def
      split: read_result.split)

theorem getSystemNode_overread_witness:
  "getSystemNode (demo_os\<lparr>os_read := \<lambda>fd. ReadBytes (replicate 200 (CHR ''1''))\<rparr>) demo_node [] = Inl OverRead \<and>
     getSystemNode (demo_os\<lparr>os_read := \<lambda>fd. ReadBytes (replicate 127 (CHR ''1''))\<rparr>) demo_node [] \<noteq> Inl OverRead"
proof -
  have "getSystemNode (demo_os\<lparr>os_read := \<lambda>fd. ReadBytes (replicate 200 (CHR ''1''))\<rparr>) demo_node [] = Inl OverRead"
    by (rule getSystemNode_overread [THEN conjunct1, THEN iffD2])
      (simp add: demo_os_def demo_node_listed no_nul_def NUL_def)
  moreover have "getSystemNode (demo_os\<lparr>os_read := \<lambda>fd. ReadBytes (replicate 127 (CHR ''1''))\<rparr>) demo_node [] \<noteq> Inl OverRead"
    using getSystemNode_overread [THEN conjunct1, THEN iffD1] by (fastforce simp: demo_os_def)
  ultimately show ?thesis by blast
qed

text \<open>C23: a command that is accepted and can be started appends everything it prints to the
  result and returns its length, through any number of lines of any length; only an output of
  more than 2147483647 bytes overflows the sum. (An output without NUL bytes.)\<close>

theorem systemCall_output:
  assumes "CheckSyscallPerm (Some (cstr cmd))" and "os_popen os (cstr cmd) = Some out" and "no_nul out"
  shows "systemCall os cmd result =
    (if int (length out) > 2147483647 then Inl SignedOverflow
     else Inr (int (length out), result @ out, [SysPopen (cstr cmd), SysPclose]))"
  using assms read_lines_no_nul [of out 0 result] by (simp add: systemCall_def Let_def INT_MAX_def)

theorem systemCall_output_witness:
  "systemCall demo_os ''dfu-util -l'' [] = Inr (2, ''ok'', [SysPopen ''dfu-util -l'', SysPclose])"
proof -
  have c: "cstr ''dfu-util -l'' = ''dfu-util -l''" and p: "CheckSyscallPerm (Some (cstr ''dfu-util -l''))"
    by code_simp+
  have o: "os_popen demo_os (cstr ''dfu-util -l'') = Some ''ok''" and n: "no_nul ''ok''"
    by (simp_all add: demo_os_def no_nul_def NUL_def)
  show ?thesis using systemCall_output [OF p o n, of "[]"] c by simp
qed

text \<open>C32: a command is accepted exactly when it begins with one of two words, so the shell is
  given any text after them: every suffix, separators and further commands included, is passed
  on unchanged. A command that is refused is not run and leaves the result as it was.\<close>

theorem syscall_prefix:
  "(CheckSyscallPerm (Some c) \<longleftrightarrow> (\<exists>s. c = ''dfu-util'' @ s \<or> c = ''service call'' @ s)) \<and>
   (if CheckSyscallPerm (Some (cstr cmd))
    then \<forall>r res calls. systemCall os cmd result = Inr (r, res, calls) \<longrightarrow> calls ! 0 = SysPopen (cstr cmd)
    else systemCall os cmd result = Inr (-1, result, []))"
proof -
  have "CheckSyscallPerm (Some c) \<longleftrightarrow> (\<exists>s. c = ''dfu-util'' @ s) \<or> (\<exists>s. c = ''service call'' @ s)"
    unfolding CheckSyscallPerm_iff by (subst (1 2) take_eq_iff_prefix) simp_all
  moreover have "calls ! 0 = SysPopen (cstr cmd)"
    if "CheckSyscallPerm (Some (cstr cmd))" "systemCall os cmd result = Inr (r, res, calls)" for r res calls
    using that by (auto simp: systemCall_def Let_def fbind_Inr_iff split: option.splits prod.splits)
  ultimately show ?thesis by (auto simp: systemCall_def Let_def)
qed

theorem syscall_prefix_witness:
  "CheckSyscallPerm (Some ''dfu-util; reboot'')"
  using syscall_prefix [of "''dfu-util; reboot''"] by simp

text \<open>The path under which the Java service sets the refresh mode of the display is not one
  the check accepts, so each of its writes fails without opening the file, whatever the
  system answers.\<close>

lemma java_autorefresh_refused:
  "setSystemNode os MSM_CMD_AUTOREFRESH value =
     (if os_access os MSM_CMD_AUTOREFRESH < 0 then ERR_NOFOUND else ERR_PERM, [SysAccess MSM_CMD_AUTOREFRESH])"
proof -
  have "no_nul MSM_CMD_AUTOREFRESH" by (simp add: MSM_CMD_AUTOREFRESH_def no_nul_def NUL_def)
  then show ?thesis
    using java_path_not_listed by (simp add: setSystemNode_def CheckAccessNodePerm_iff Let_def)
qed

end
