(* ===== verification/ServerMain.thy ===== *)
theory ServerMain
  imports ServerListener StartupThread NativeService
begin

text \<open>
  \<open>jni/main/main_vrserver.cpp\<close> and the two singletons: the native process registers the service,
  constructs the listener, which parses the SDK descriptions, starts its thread and joins the
  Binder thread pool. The state of the process is the two static pointers; what \<open>main\<close> does
  outside is a list of actions. The thread operations in it are those of \<open>StartupThread\<close>, with
  the listener as object 0: the base class constructor runs before the constructor's body.
\<close>

datatype main_action =
    ActService string           \<comment> \<open>\<open>addService\<close> of the native service\<close>
  | ActThread tcall
  | ActXml xml_event
  | ActStartThreadPool
  | ActJoinThreadPool

record 'i process =
  s_vr :: "'i vrservice option"
  gSL :: "server option"

definition new_process :: "'i process" where
  "new_process = \<lparr>s_vr = None, gSL = None\<rparr>"

definition listener_obj :: obj where
  "listener_obj = 0"

text \<open>\<open>ServerListener::self\<close>: \<open>None\<close> when the parser in the constructor does not end.\<close>

definition self :: "('d, 'n) libxml \<Rightarrow> 'i process \<Rightarrow> (server \<times> 'i process \<times> main_action list) option" where
  "self X p =
     (case gSL p of
        Some sl \<Rightarrow> Some (sl, p, [])
      | None \<Rightarrow>
          (case new_ServerListener X of
             None \<Rightarrow> None
           | Some (sl, evs) \<Rightarrow>
               Some (sl, p\<lparr>gSL := Some sl\<rparr>, ActThread (CallNew listener_obj) # map ActXml evs)))"

definition main_vrserver :: "('d, 'n) libxml \<Rightarrow> 'i process \<Rightarrow> (int \<times> 'i process \<times> main_action list) option" where
  "main_vrserver X p =
     (case getSingleInstance (s_vr p) of
        (vr, s_vr') \<Rightarrow>
          (case self X (p\<lparr>s_vr := s_vr'\<rparr>) of
             None \<Rightarrow> None
           | Some (sl, p', acts) \<Rightarrow>
               Some (0, p', ActService ''vrserver'' # acts @
                 [ActThread (CallStart listener_obj), ActStartThreadPool, ActJoinThreadPool])))"

definition thread_calls :: "main_action list \<Rightarrow> tcall list" where
  "thread_calls acts = concat (map (\<lambda>a. case a of ActThread c \<Rightarrow> [c] | _ \<Rightarrow> []) acts)"

lemma thread_calls_simps [simp]:
  "thread_calls [] = []" "thread_calls (ActThread c # acts) = c # thread_calls acts"
  "thread_calls (ActService n # acts) = thread_calls acts" "thread_calls (ActXml e # acts) = thread_calls acts"
  "thread_calls (ActStartThreadPool # acts) = thread_calls acts"
  "thread_calls (ActJoinThreadPool # acts) = thread_calls acts"
  "thread_calls (acts @ acts') = thread_calls acts @ thread_calls acts'"
  "thread_calls (map ActXml evs) = []"
  by (simp_all add: thread_calls_def comp_def)

section \<open>The shipped descriptions\<close>

definition shipped_files :: "string \<Rightarrow> xnode option" where
  "shipped_files = [XML_PATH_PREFIX @ ''/svrinfo.xml'' \<mapsto> svrinfo, XML_PATH_PREFIX @ ''/lvrinfo.xml'' \<mapsto> lvrinfo]"

lemma atoll_3: "atoll ''3'' = 3"
  by code_simp

lemma shipped_paths:
  "shipped_files (XML_PATH_PREFIX @ ''/svrinfo.xml'') = Some svrinfo"
  "shipped_files (XML_PATH_PREFIX @ ''/lvrinfo.xml'') = Some lvrinfo"
  by (simp_all add: shipped_files_def)

lemma parse_svr:
  "\<exists>evs. parser (tree_xml shipped_files) (Some (XML_PATH_PREFIX @ ''/svrinfo.xml'')) new_XmlDatabase =
     Some (0, \<lparr>mData = [add_item ''Svr_C_001S'' 3 (fst (new_VrSDK ''SVR'' ''Svr_S_001S.201610260000''))]\<rparr>, evs)"
  by (simp add: parser_def shipped_paths svrinfo_def new_XmlDatabase_def GenerateSDK_def Let_def split_beta
      parse_children.simps parse_child_def xml_alloc_def atoll_3 add_item_def [symmetric])
     (simp add: add_item_def addExternalSDKItem_def new_VrSDK_def)

lemma strcmp_types: "strcmp_eq ''LVR'' ''SVR'' = False"
  by (simp add: strcmp_eq_def)

lemma parse_lvr:
  "\<exists>evs. parser (tree_xml shipped_files) (Some (XML_PATH_PREFIX @ ''/lvrinfo.xml''))
     \<lparr>mData = [add_item ''Svr_C_001S'' 3 (fst (new_VrSDK ''SVR'' ''Svr_S_001S.201610260000''))]\<rparr> =
   Some (0, shipped_db, evs)"
  by (simp add: parser_def shipped_paths lvrinfo_def GenerateSDK_def Let_def split_beta getType_def
      parse_children.simps parse_child_def xml_alloc_def atoll_3 strcmp_types)
     (simp add: add_item_def addExternalSDKItem_def new_VrSDK_def shipped_db_def)

lemma shipped_listener:
  "\<exists>s evs. new_ServerListener (tree_xml shipped_files) = Some (s, evs) \<and> mConnectors s = [] \<and>
     mXmlData s = shipped_db"
  using parse_svr parse_lvr by (fastforce simp: new_ServerListener_def)

lemma shipped_ok: "getSDK ''svr'' shipped_db = Some 0" "getSDK ''lvr'' shipped_db = Some 1"
  "getAllSDKTypes shipped_db = ''SVR^LVR''"
  by code_simp+

lemma shipped_features:
  "getFeature (Some q) (mData shipped_db ! 0) = (if base_version q = ''Svr_C_001S'' then 3 else 0)"
  "getFeature (Some q) (mData shipped_db ! 1) = (if base_version q = ''Lvr_C_001S'' then 3 else 0)"
  using sdk_items.find_add [OF sdk_ok_new, of "''Svr_C_001S''" 3 "''SVR''" "''Svr_S_001S.201610260000''" "base_version q"]
    sdk_items.find_add [OF sdk_ok_new, of "''Lvr_C_001S''" 3 "''LVR''" "''Lvr_S_001S.201610260000''" "base_version q"]
  by (auto simp: getFeature_features shipped_db_def)

lemma self_again: "self X p = Some (sl, p', acts) \<Longrightarrow> self Y p' = Some (sl, p', [])"
  by (auto simp: self_def split: option.splits)

lemma main_thread_calls:
  "main_vrserver X new_process = Some (r, p, acts) \<Longrightarrow>
     thread_calls acts = [CallNew listener_obj, CallStart listener_obj]"
  by (auto simp: main_vrserver_def self_def new_process_def getSingleInstance_def split: option.splits)

lemma single_run: "main_vrserver X new_process = Some (r, p, acts) \<Longrightarrow> paired (thread_calls acts)"
  by (simp add: main_thread_calls)

section \<open>Properties\<close>

lemma log_run_start: "runs_after_start l \<Longrightarrow> LRun ob \<in> set l \<Longrightarrow> LStart ob \<in> set l"
  by (metis in_set_conv_nth in_set_takeD runs_after_start_def)

lemma shipped_feature_answer:
  "feature_answer shipped_db ''svr'' q = Inr (if base_version q = ''Svr_C_001S'' then ''3'' else ''0'')"
  "feature_answer shipped_db ''lvr'' q = Inr (if base_version q = ''Lvr_C_001S'' then ''3'' else ''0'')"
proof -
  have digits: "show_nat 3 = ''3''" "show_nat 0 = ''0''" by code_simp+
  have f: "unat (if b then 3 else 0 :: u64) = (if b then 3 else 0)" for b by simp
  have s: "show_nat (if b then 3 else 0) = (if b then ''3'' else ''0'')" for b using digits by simp
  show "feature_answer shipped_db ''svr'' q = Inr (if base_version q = ''Svr_C_001S'' then ''3'' else ''0'')"
    "feature_answer shipped_db ''lvr'' q = Inr (if base_version q = ''Lvr_C_001S'' then ''3'' else ''0'')"
    unfolding feature_answer_def shipped_ok option.case shipped_features f s by (rule refl)+
qed

lemma shipped_main:
  "\<exists>p acts. main_vrserver (tree_xml shipped_files) (new_process :: nat process) = Some (0, p, acts)"
  using shipped_listener
  by (fastforce simp: main_vrserver_def self_def new_process_def getSingleInstance_def)

text \<open>The answers of the shipped database.\<close>

lemma shipped_answers:
  "reply_text (answer shipped_db ''support_sdks'') = ''SVR^LVR''"
  "reply_text (answer shipped_db ''svr_sdk_version'') = ''Svr_S_001S.201610260000''"
  "reply_text (answer shipped_db ''lvr_sdk_version'') = ''Lvr_S_001S.201610260000''"
  by code_simp+

lemma shipped_feature_reply:
  "reply_text (answer shipped_db (''svr_feature:'' @ q)) = (if base_version q = ''Svr_C_001S'' then ''3'' else ''0'')"
  "reply_text (answer shipped_db (''lvr_feature:'' @ q)) = (if base_version q = ''Lvr_C_001S'' then ''3'' else ''0'')"
proof -
  have "lower (take 12 (''svr_feature:'' @ q)) = ''svr'' @ ''_feature:''"
    "lower (take 12 (''lvr_feature:'' @ q)) = ''lvr'' @ ''_feature:''"
    by (simp_all add: lower_def c_tolower_def)
  then have "answer shipped_db (''svr_feature:'' @ q) = feature_answer shipped_db ''svr'' q"
    "answer shipped_db (''lvr_feature:'' @ q) = feature_answer shipped_db ''lvr'' q"
    using answer_feature [of "''svr_feature:'' @ q" "''svr''"] answer_feature [of "''lvr_feature:'' @ q" "''lvr''"]
    by simp_all
  then show "reply_text (answer shipped_db (''svr_feature:'' @ q)) = (if base_version q = ''Svr_C_001S'' then ''3'' else ''0'')"
    "reply_text (answer shipped_db (''lvr_feature:'' @ q)) = (if base_version q = ''Lvr_C_001S'' then ''3'' else ''0'')"
    unfolding shipped_feature_answer by (simp_all add: reply_text_def BUFF_SIZE_def)
qed

lemma shipped_feature_request:
  assumes "fd_in_range fd" and "fd \<in> rset" and "0 \<le> wres" and "no_nul q"
    and "sdk \<in> {''svr'', ''lvr''}"
  shows "postSelect shipped_db \<lparr>mConnID = fd\<rparr> rset (ReadBytes (sdk @ ''_feature:'' @ q)) wres =
    (if length q \<le> 52 then Inr (RESULT_OK, [IoRead fd 65,
       IoWrite fd (reply_text (answer shipped_db (sdk @ ''_feature:'' @ q)))]) else Inl OverRead)"
proof -
  let ?msg = "sdk @ ''_feature:'' @ q"
  have l: "length ?msg = 12 + length q" and n: "no_nul ?msg" and q: "take 4 ?msg \<noteq> ''quit''" "?msg \<noteq> []"
    using assms(4,5) by (auto simp: no_nul_def NUL_def)
  show ?thesis
  proof (cases "length q \<le> 52")
    case True
    then show ?thesis using request_answered [OF assms(1-3) n _ q(2,1)] l by simp
  next
    case False
    have "NUL \<notin> set (take 65 ?msg)" using n by (auto simp: no_nul_def dest: in_set_takeD)
    moreover have "65 \<le> length ?msg" using False l by simp
    ultimately show ?thesis
      using postSelect_unterminated [of "\<lparr>mConnID = fd\<rparr>" rset wres ?msg shipped_db] assms(1-3) q(1) False by simp
  qed
qed

text \<open>C28: the server built from the two files the repository installs has no connections, and
  what its \<open>postSelect\<close> does for a ready client whose write succeeds is this: the types are listed
  as \<open>SVR^LVR\<close>, each of the two versions is the one of its file, and a feature request for either
  SDK about a version without NUL of at most 52 characters is answered with 3 when it is the one
  external version described, with anything after its first dot, and with 0 otherwise. A request
  about a longer version is undefined behaviour: it fills the buffer without a terminator.\<close>

theorem shipped_server_answers:
  assumes "0 < fd" and "fd < 1024" and "fd \<in> rset" and "0 \<le> wres"
  shows "\<exists>s evs. new_ServerListener (tree_xml shipped_files) = Some (s, evs) \<and> mConnectors s = [] \<and>
    postSelect (mXmlData s) \<lparr>mConnID = fd\<rparr> rset (ReadBytes ''support_sdks'') wres =
      Inr (RESULT_OK, [IoRead fd 65, IoWrite fd ''SVR^LVR'']) \<and>
    postSelect (mXmlData s) \<lparr>mConnID = fd\<rparr> rset (ReadBytes ''svr_sdk_version'') wres =
      Inr (RESULT_OK, [IoRead fd 65, IoWrite fd ''Svr_S_001S.201610260000'']) \<and>
    postSelect (mXmlData s) \<lparr>mConnID = fd\<rparr> rset (ReadBytes ''lvr_sdk_version'') wres =
      Inr (RESULT_OK, [IoRead fd 65, IoWrite fd ''Lvr_S_001S.201610260000'']) \<and>
    (\<forall>q. no_nul q \<longrightarrow> postSelect (mXmlData s) \<lparr>mConnID = fd\<rparr> rset (ReadBytes (''svr_feature:'' @ q)) wres =
      (if length q \<le> 52 then Inr (RESULT_OK, [IoRead fd 65, IoWrite fd
         (if takeWhile (\<lambda>c. c \<noteq> CHR ''.'') q = ''Svr_C_001S'' then ''3'' else ''0'')]) else Inl OverRead)) \<and>
    (\<forall>q. no_nul q \<longrightarrow> postSelect (mXmlData s) \<lparr>mConnID = fd\<rparr> rset (ReadBytes (''lvr_feature:'' @ q)) wres =
      (if length q \<le> 52 then Inr (RESULT_OK, [IoRead fd 65, IoWrite fd
         (if takeWhile (\<lambda>c. c \<noteq> CHR ''.'') q = ''Lvr_C_001S'' then ''3'' else ''0'')]) else Inl OverRead))"
proof -
  obtain s evs where s: "new_ServerListener (tree_xml shipped_files) = Some (s, evs)" "mConnectors s = []"
    and db: "mXmlData s = shipped_db" using shipped_listener by blast
  have r: "fd_in_range fd" using assms(1,2) by (simp add: fd_in_range_def FD_SETSIZE_def)
  note fixed = request_answered [OF r assms(3,4), where db = shipped_db]
  note feature = shipped_feature_request [OF r assms(3,4)]
  have "postSelect shipped_db \<lparr>mConnID = fd\<rparr> rset (ReadBytes ''support_sdks'') wres =
      Inr (RESULT_OK, [IoRead fd 65, IoWrite fd ''SVR^LVR''])"
    using fixed [of "''support_sdks''"] unfolding shipped_answers by (simp add: no_nul_def NUL_def)
  moreover have "postSelect shipped_db \<lparr>mConnID = fd\<rparr> rset (ReadBytes ''svr_sdk_version'') wres =
      Inr (RESULT_OK, [IoRead fd 65, IoWrite fd ''Svr_S_001S.201610260000''])"
    using fixed [of "''svr_sdk_version''"] unfolding shipped_answers by (simp add: no_nul_def NUL_def)
  moreover have "postSelect shipped_db \<lparr>mConnID = fd\<rparr> rset (ReadBytes ''lvr_sdk_version'') wres =
      Inr (RESULT_OK, [IoRead fd 65, IoWrite fd ''Lvr_S_001S.201610260000''])"
    using fixed [of "''lvr_sdk_version''"] unfolding shipped_answers by (simp add: no_nul_def NUL_def)
  moreover have "postSelect shipped_db \<lparr>mConnID = fd\<rparr> rset (ReadBytes (''svr_feature:'' @ q)) wres =
      (if length q \<le> 52 then Inr (RESULT_OK, [IoRead fd 65, IoWrite fd
         (if takeWhile (\<lambda>c. c \<noteq> CHR ''.'') q = ''Svr_C_001S'' then ''3'' else ''0'')]) else Inl OverRead)"
    if "no_nul q" for q
    using feature [OF that, of "''svr''"] shipped_feature_reply(1) [of q] by (simp add: base_version_def)
  moreover have "postSelect shipped_db \<lparr>mConnID = fd\<rparr> rset (ReadBytes (''lvr_feature:'' @ q)) wres =
      (if length q \<le> 52 then Inr (RESULT_OK, [IoRead fd 65, IoWrite fd
         (if takeWhile (\<lambda>c. c \<noteq> CHR ''.'') q = ''Lvr_C_001S'' then ''3'' else ''0'')]) else Inl OverRead)"
    if "no_nul q" for q
    using feature [OF that, of "''lvr''"] shipped_feature_reply(2) [of q] by (simp add: base_version_def)
  ultimately show ?thesis using s unfolding db [symmetric] by blast
qed

theorem shipped_server_answers_witness:
  "\<exists>s evs. new_ServerListener (tree_xml shipped_files) = Some (s, evs) \<and>
     postSelect (mXmlData s) \<lparr>mConnID = 9\<rparr> {9} (ReadBytes ''svr_feature:Svr_C_001S.7'') 1 =
       Inr (RESULT_OK, [IoRead 9 65, IoWrite 9 ''3''])"
proof -
  have k: "0 < (9 :: int)" "(9 :: int) < 1024" "(9 :: int) \<in> {9}" "0 \<le> (1 :: int)" by simp_all
  let ?q = "''Svr_C_001S.7''"
  have q: "no_nul ?q" "length ?q \<le> 52" "takeWhile (\<lambda>c. c \<noteq> CHR ''.'') ?q = ''Svr_C_001S''"
    by (simp_all add: no_nul_def NUL_def)
  from shipped_server_answers [OF k] obtain s evs where
    s: "new_ServerListener (tree_xml shipped_files) = Some (s, evs)"
    and f: "\<forall>q. no_nul q \<longrightarrow> postSelect (mXmlData s) \<lparr>mConnID = 9\<rparr> {9} (ReadBytes (''svr_feature:'' @ q)) 1 =
      (if length q \<le> 52 then Inr (RESULT_OK, [IoRead 9 65, IoWrite 9
         (if takeWhile (\<lambda>c. c \<noteq> CHR ''.'') q = ''Svr_C_001S'' then ''3'' else ''0'')]) else Inl OverRead)"
    by (elim exE conjE) (rule that)
  show ?thesis using s f [rule_format, OF q(1)] q(2,3) by simp
qed

text \<open>C31: in the native process, in every interleaving, the listener's \<open>run\<close> is entered only after
  its constructor, and with it the loading of the SDK descriptions, has finished and \<open>start\<close>
  was called; and the start-up cannot block, whether that \<open>run\<close> returns or not: when only its
  return is left to happen, all calls are made and the thread has entered it.\<close>

theorem listener_starts_built:
  assumes "main_vrserver X (new_process :: 'i process) = Some (r, p, acts)"
    and "reach (\<lambda>s. s = thread_init (thread_calls acts)) thread_step s"
  shows "(LRun ob \<in> set (log s) \<longrightarrow> LStart ob \<in> set (log s)) \<and>
    ((\<nexists>t. startup_step s t) \<longrightarrow> todo s = [] \<and> (\<forall>w \<in> set (workers s). wpc w \<in> {WRun, WDone})) \<and>
    ((\<nexists>t. thread_step s t) \<longrightarrow> todo s = [] \<and> (\<forall>w \<in> set (workers s). wpc w = WDone)) \<and>
    (\<exists>evs. acts = ActService ''vrserver'' # ActThread (CallNew listener_obj) # map ActXml evs @
      [ActThread (CallStart listener_obj), ActStartThreadPool, ActJoinThreadPool])"
proof -
  have inv: "thread_inv s" by (rule startup_inv [OF assms(2) single_run [OF assms(1)]])
  have "\<exists>evs. acts = ActService ''vrserver'' # ActThread (CallNew listener_obj) # map ActXml evs @
      [ActThread (CallStart listener_obj), ActStartThreadPool, ActJoinThreadPool]"
    using assms(1)
    by (auto simp: main_vrserver_def self_def new_process_def getSingleInstance_def split: option.splits)
  moreover have "runs_after_start (log s)" using inv by (simp add: thread_inv_def)
  ultimately show ?thesis
    using stuck_caller [OF inv] stuck_workers [OF inv] stopped_workers [OF inv] stopped_startup
      log_run_start by blast
qed

theorem listener_starts_built_witness:
  "\<exists>p acts s. main_vrserver (tree_xml shipped_files) (new_process :: nat process) = Some (0, p, acts) \<and>
     exec one_thread (thread_init (thread_calls acts)) = Some s \<and>
     LRun listener_obj \<in> set (log s) \<and> LStart listener_obj \<in> set (log s)"
proof -
  obtain p acts where m: "main_vrserver (tree_xml shipped_files) (new_process :: nat process) = Some (0, p, acts)"
    using shipped_main by blast
  have "map_option log (exec one_thread (thread_init [CallNew 0, CallStart 0])) = Some [LStart 0, LRun 0]"
    by code_simp
  then obtain s where s: "exec one_thread (thread_init (thread_calls acts)) = Some s"
    and l: "log s = [LStart 0, LRun 0]"
    unfolding main_thread_calls [OF m] listener_obj_def by (auto simp del: exec.simps)
  have "LRun listener_obj \<in> set (log s)" by (simp add: l listener_obj_def)
  moreover from this have "LStart listener_obj \<in> set (log s)"
    using listener_starts_built [OF m exec_init_reach [OF s]] by blast
  ultimately show ?thesis using m s by blast
qed

text \<open>Each singleton is created by its first access only: a second access returns the same
  object, makes no thread and parses no file, whatever the files hold by then.\<close>

lemma singletons_created_once:
  assumes "self X p = Some (sl, p', acts)"
  shows "self Y p' = Some (sl, p', []) \<and>
    getSingleInstance (snd (getSingleInstance q)) = getSingleInstance q"
  using self_again [OF assms, of Y] by (simp add: getSingleInstance_def split: option.split)

section \<open>The server built from any two files\<close>

text \<open>
  What a file does to the abstract table: nothing when it cannot be read, has no root or a root
  without a version, and \<open>spec_load\<close> of its items otherwise.
\<close>

inductive file_effect :: "('d, 'n) libxml \<Rightarrow> string \<Rightarrow> (sdk_table \<Rightarrow> sdk_table) \<Rightarrow> bool" for X path where
  unreadable: "xmlReadFile X path = None \<Longrightarrow> file_effect X path id"
| no_root: "xmlReadFile X path = Some doc \<Longrightarrow> xmlDocGetRootElement X doc = None \<Longrightarrow> file_effect X path id"
| no_version: "xml_file X path root ns \<Longrightarrow> xmlGetProp X root ''Version'' = None \<Longrightarrow> file_effect X path id"
| loads: "xml_file X path root ns \<Longrightarrow> xmlGetProp X root ''Version'' = Some v \<Longrightarrow>
     file_effect X path (spec_load (xml_name X root) v (child_items X ns))"

lemma parser_effect:
  assumes "file_effect X path F" and "db_ok db"
  shows "\<exists>r db' evs. parser X (Some path) db = Some (r, db', evs) \<and> db_ok db' \<and> abs_db db' = F (abs_db db)"
  using assms(1)
proof cases
  case unreadable
  with assms(2) show ?thesis by (simp add: parser_def)
next
  case no_root
  with assms(2) show ?thesis by (simp add: parser_def)
next
  case no_version
  with assms(2) show ?thesis by (simp add: parser_fails)
next
  case loads
  then show ?thesis using parser_loads [OF loads(2,3) assms(2)] by metis
qed

text \<open>C7: the server built from any two files, present or not, readable or not, refines the abstract
  table: its database is well formed and holds exactly the effect of the first file followed by
  the effect of the second. The second file is loaded whatever becomes of the first, and when
  both describe one type the first one's version stays and its items win.\<close>

theorem server_loads_both:
  assumes "file_effect X (XML_PATH_PREFIX @ ''/svrinfo.xml'') F"
    and "file_effect X (XML_PATH_PREFIX @ ''/lvrinfo.xml'') G"
  shows "\<exists>s evs. new_ServerListener X = Some (s, evs) \<and> mConnectors s = [] \<and>
    db_ok (mXmlData s) \<and> abs_db (mXmlData s) = G (F Map.empty)"
proof -
  obtain r1 db1 evs1 where
    "parser X (Some (XML_PATH_PREFIX @ ''/svrinfo.xml'')) new_XmlDatabase = Some (r1, db1, evs1)"
    and ok1: "db_ok db1" and "abs_db db1 = F Map.empty"
    using parser_effect [OF assms(1) db_ok_new] by auto
  moreover obtain r2 db2 evs2 where
    "parser X (Some (XML_PATH_PREFIX @ ''/lvrinfo.xml'')) db1 = Some (r2, db2, evs2)"
    and "db_ok db2" and "abs_db db2 = G (abs_db db1)"
    using parser_effect [OF assms(2) ok1] by auto
  ultimately show ?thesis by (simp add: new_ServerListener_def)
qed

theorem server_loads_both_witness:
  "\<exists>s evs. new_ServerListener (tree_xml [XML_PATH_PREFIX @ ''/lvrinfo.xml'' \<mapsto>
        Elem ''LVR'' [(''Version'', ''2'')] []]) = Some (s, evs) \<and>
     abs_db (mXmlData s) = [''LVR'' \<mapsto> (''2'', Map.empty)]"
proof -
  let ?root = "Elem ''LVR'' [(''Version'', ''2'')] []"
  let ?X = "tree_xml [XML_PATH_PREFIX @ ''/lvrinfo.xml'' \<mapsto> ?root]"
  have f: "file_effect ?X (XML_PATH_PREFIX @ ''/svrinfo.xml'') id"
    by (rule file_effect.unreadable) simp
  have x: "xml_file ?X (XML_PATH_PREFIX @ ''/lvrinfo.xml'') [?root] (siblings [])"
    by (rule tree_xml_file) simp
  have v: "xmlGetProp ?X [?root] ''Version'' = Some ''2''" by simp
  show ?thesis
    using server_loads_both [OF f file_effect.loads [OF x v]]
    by (auto simp: spec_load_def child_items_def)
qed

end
