(* ===== verification/DfuProgress.thy ===== *)
theory DfuProgress
  imports Prelude "HOL-Library.Signed_Division"
begin

unbundle bit_operations_syntax

text \<open>
  \<open>TalkToDfuUtil.java\<close>: the thread that listens while \<open>dfu-util\<close> flashes a headset, reads the
  size of the file and then the bytes written so far as four little-endian bytes each, and
  broadcasts the percentage. Java's \<open>int\<close> is a 32-bit word with signed division. What the local
  sockets answer (whether the name can be bound, whether a client connects, what each read
  returns) are arguments; a list of reads that is used up is a thread that waits in \<open>read\<close>.
\<close>

datatype sock_read =
    SockEnd                   \<comment> \<open>\<open>read\<close> returns -1\<close>
  | SockBytes "8 word list"   \<comment> \<open>\<open>read\<close> returns their number\<close>
  | SockError                 \<comment> \<open>\<open>read\<close> throws an \<open>IOException\<close>\<close>

datatype accepting =
    AcceptBlocks
  | AcceptError
  | Accepted "sock_read list"

datatype talk_event =
    TalkBind
  | TalkAccept
  | TalkBroadcast i32
  | TalkCloseClient
  | TalkCloseServer

datatype talk_end =
    TalkEnded
  | TalkIOException
  | TalkDivisionByZero        \<comment> \<open>the \<open>ArithmeticException\<close> nobody catches\<close>
  | TalkWaiting

text \<open>The buffer is new and zero before each read, which fills its front.\<close>

definition read_buffer :: "8 word list \<Rightarrow> 8 word list" where
  "read_buffer bs = bs @ replicate (4 - length bs) 0"

definition buffer_value :: "8 word list \<Rightarrow> i32" where
  "buffer_value b =
     (let byte = (\<lambda>i. scast (b ! i) AND (0xff :: i32))
      in byte 0 OR push_bit 8 (byte 1) OR push_bit 16 (byte 2) OR push_bit 24 (byte 3))"

definition java_div :: "i32 \<Rightarrow> i32 \<Rightarrow> i32 option" where
  "java_div a b = (if b = 0 then None else Some (word_of_int (sint a sdiv sint b)))"

fun talk_loop :: "sock_read list \<Rightarrow> i32 \<Rightarrow> i32 \<Rightarrow> talk_event list \<times> i32 \<times> i32 \<times> talk_end" where
  "talk_loop [] fileSize writeSize = ([], fileSize, writeSize, TalkWaiting)"
| "talk_loop (r # rs) fileSize writeSize =
     (case r of
        SockError \<Rightarrow> ([], fileSize, writeSize, TalkIOException)
      | SockEnd \<Rightarrow> ([], fileSize, writeSize, TalkEnded)
      | SockBytes bs \<Rightarrow>
          if bs = [] then ([], fileSize, writeSize, TalkEnded)
          else
            (let val = buffer_value (read_buffer bs);
                 fileSize' = (if fileSize = - 1 then val else fileSize);
                 writeSize' = (if fileSize = - 1 then writeSize else val)
             in case java_div (writeSize' * 100) fileSize' of
                  None \<Rightarrow> ([], fileSize', writeSize', TalkDivisionByZero)
                | Some progress \<Rightarrow>
                    (case talk_loop rs fileSize' writeSize' of
                       (evs, fs, ws, out) \<Rightarrow> (TalkBroadcast progress # evs, fs, ws, out))))"

text \<open>
  \<open>talkWithSocket\<close>: the \<open>finally\<close> block runs on every way out of the loop, also under the
  exception that is not caught. It does not run while the thread waits.
\<close>

definition talk_finally :: "i32 \<Rightarrow> i32 \<Rightarrow> bool \<Rightarrow> bool \<Rightarrow> talk_event list" where
  "talk_finally fileSize writeSize cli srv =
     (if fileSize \<noteq> writeSize then [TalkBroadcast (- 1)] else []) @
     (if cli then [TalkCloseClient] else []) @ (if srv then [TalkCloseServer] else [])"

definition talkWithSocket :: "bool \<Rightarrow> accepting \<Rightarrow> talk_event list \<times> talk_end" where
  "talkWithSocket bound accepting =
     (if \<not> bound then (talk_finally (- 1) 0 False False, TalkIOException)
      else (case accepting of
          AcceptBlocks \<Rightarrow> ([TalkBind], TalkWaiting)
        | AcceptError \<Rightarrow> (TalkBind # talk_finally (- 1) 0 False True, TalkIOException)
        | Accepted reads \<Rightarrow>
            (case talk_loop reads (- 1) 0 of
               (evs, fs, ws, out) \<Rightarrow>
                 ([TalkBind, TalkAccept] @ evs @
                    (if out = TalkWaiting then [] else talk_finally fs ws True True), out))))"

text \<open>The broadcast: the callbacks are called from the last to the first; one that is dead is
  skipped.\<close>

definition broadcastFlashProgress :: "('cb \<Rightarrow> bool) \<Rightarrow> 'cb list \<Rightarrow> i32 \<Rightarrow> ('cb \<times> i32) list" where
  "broadcastFlashProgress alive callbacks percent =
     concat (map (\<lambda>i. let cb = callbacks ! i in if alive cb then [(cb, percent)] else [])
       (rev [0..<length callbacks]))"

section \<open>The four bytes of a number\<close>

definition le_bytes :: "i32 \<Rightarrow> 8 word list" where
  "le_bytes w = map (\<lambda>i. ucast (drop_bit (8 * i) w)) [0, 1, 2, 3]"

lemma byte_and_ff: "scast (b :: 8 word) AND (0xff :: i32) = ucast b"
proof (rule bit_word_eqI)
  fix n assume "n < LENGTH(32)"
  have ff: "(0xff :: i32) = mask 8" by (simp add: mask_eq_exp_minus_1)
  have b: "bit b n \<Longrightarrow> n < 8" by (drule bit_imp_le_length) simp
  show "bit (scast b AND (0xff :: i32)) n \<longleftrightarrow> bit (ucast b :: i32) n"
    unfolding ff using \<open>n < LENGTH(32)\<close> b
    by (cases "n < 8") (auto simp: bit_simps less_Suc_eq_le numeral_eq_Suc)
qed

lemma buffer_le_bytes: "buffer_value (le_bytes w) = w"
proof (rule bit_word_eqI)
  fix n assume n: "n < LENGTH(32)"
  then have "n < 8 \<or> 8 \<le> n \<and> n < 16 \<or> 16 \<le> n \<and> n < 24 \<or> 24 \<le> n \<and> n < 32" by auto
  then show "bit (buffer_value (le_bytes w)) n \<longleftrightarrow> bit w n"
    using n by (auto simp: buffer_value_def le_bytes_def byte_and_ff bit_simps)
qed

lemma le_bytes_simps [simp]: "length (le_bytes w) = 4" "le_bytes w \<noteq> []" "read_buffer (le_bytes w) = le_bytes w"
  by (simp_all add: le_bytes_def read_buffer_def)

section \<open>The arithmetic within and beyond the range\<close>

lemma sint_in_range: "- (2 ^ 31) \<le> k \<Longrightarrow> k < 2 ^ 31 \<Longrightarrow> sint (word_of_int k :: i32) = k"
  by (simp add: signed_of_int signed_take_bit_int_eq_self)

lemma sint_of_nat_small: "n < 2 ^ 31 \<Longrightarrow> sint (of_nat n :: i32) = int n"
  using sint_in_range [of "int n"] by simp

lemma java_div_small:
  assumes "0 < n" and "n < 2 ^ 31" and "k < 2 ^ 31"
  shows "java_div (of_nat k) (of_nat n) = Some (of_nat (k div n))"
proof -
  have "int k sdiv int n = int (k div n)"
    using assms(1) by (cases "k = 0") (simp_all add: signed_divide_int_eq_divide_int zdiv_int)
  moreover have "(of_nat n :: i32) \<noteq> 0"
    using sint_of_nat_small [OF assms(2)] assms(1) by auto
  ultimately show ?thesis
    using assms by (simp add: java_div_def sint_of_nat_small)
qed

lemma progress_small:
  assumes "0 < n" and "n \<le> 21474836" and "w \<le> n"
  shows "java_div (of_nat w * 100) (of_nat n) = Some (of_nat (w * 100 div n))"
  using java_div_small [of n "w * 100"] assms by simp

text \<open>For these sizes the product leaves the 32 bits and comes back negative.\<close>

lemma progress_overflow:
  assumes "21474837 \<le> n" and "n \<le> 42949672"
  shows "java_div (of_nat n * 100) (of_nat n) = Some (- of_nat (2 ^ 32 div n - 100))"
proof -
  have w: "(of_nat n * 100 :: i32) = word_of_int (int n * 100 - 2 ^ 32)"
    by simp
  have s: "sint (of_nat n * 100 :: i32) = - (2 ^ 32 - int n * 100)"
    unfolding w by (subst sint_in_range) (use assms in simp_all)
  have n: "sint (of_nat n :: i32) = int n" by (rule sint_of_nat_small) (use assms in simp)
  have "- (2 ^ 32 - int n * 100) sdiv int n = - ((2 ^ 32 - int n * 100) div int n)"
    using assms by (simp add: signed_divide_int_def)
  also have "(2 ^ 32 - int n * 100) div int n = 2 ^ 32 div int n - 100"
    using div_mult_self1 [of "int n" "2 ^ 32" "- 100"] assms by (simp add: mult.commute)
  also have "\<dots> = int (2 ^ 32 div n - 100)"
    using assms div_le_mono2 [of n 42949672 "2 ^ 32"] by (simp add: zdiv_int)
  finally have "sint (of_nat n * 100 :: i32) sdiv sint (of_nat n :: i32) = - int (2 ^ 32 div n - 100)"
    unfolding s n .
  moreover have "(of_nat n :: i32) \<noteq> 0" using n assms by auto
  ultimately show ?thesis by (simp add: java_div_def)
qed

definition sends :: "nat list \<Rightarrow> sock_read list" where
  "sends ws = map (\<lambda>w. SockBytes (le_bytes (of_nat w))) ws"

lemma sends_simps [simp]: "sends [] = []" "sends (w # ws) = SockBytes (le_bytes (of_nat w)) # sends ws"
  by (simp_all add: sends_def)

lemma of_nat_not_sentinel: "n < 2 ^ 31 \<Longrightarrow> (of_nat n :: i32) \<noteq> - 1"
proof
  assume "n < 2 ^ 31" and "(of_nat n :: i32) = - 1"
  then have "sint (- 1 :: i32) = int n" using sint_of_nat_small [of n] by simp
  then show False by simp
qed

lemma of_nat_eq_small: "m < 2 ^ 31 \<Longrightarrow> n < 2 ^ 31 \<Longrightarrow> (of_nat m :: i32) = of_nat n \<longleftrightarrow> m = n"
  using sint_of_nat_small by (metis of_nat_eq_iff)

lemma talk_loop_writes:
  assumes "0 < n" and "n \<le> 21474836" and "\<forall>w \<in> set ws. w \<le> n"
  shows "talk_loop (sends ws @ [SockEnd]) (of_nat n) (of_nat w) =
    (map (\<lambda>w. TalkBroadcast (of_nat (w * 100 div n))) ws, of_nat n, of_nat (last (w # ws)), TalkEnded)"
  using assms(3)
proof (induction ws arbitrary: w)
  case (Cons v ws)
  have "(of_nat n :: i32) \<noteq> - 1" by (rule of_nat_not_sentinel) (use assms(2) in simp)
  moreover have "java_div (of_nat v * 100) (of_nat n) = Some (of_nat (v * 100 div n))"
    by (rule progress_small) (use assms(1,2) Cons.prems in simp_all)
  ultimately show ?case using Cons.IH [of v] Cons.prems by (simp add: buffer_le_bytes)
qed simp

section \<open>Properties\<close>

text \<open>C25: for a file of 1 to 21474836 bytes whose sender writes its size and then any counts up to it,
  the clients are told 0 and then, for every count, the whole percentage, which is never above
  100; when the sender hangs up they are told -1 exactly if the last count is not the size, and
  both sockets are closed.\<close>

theorem dfu_progress_reported:
  assumes "0 < n" and "n \<le> 21474836" and "\<forall>w \<in> set ws. w \<le> n"
  shows "talkWithSocket True (Accepted (sends (n # ws) @ [SockEnd])) =
      ([TalkBind, TalkAccept] @ map (\<lambda>w. TalkBroadcast (of_nat (w * 100 div n))) (0 # ws) @
        (if last (0 # ws) = n then [] else [TalkBroadcast (- 1)]) @ [TalkCloseClient, TalkCloseServer],
       TalkEnded) \<and>
    (\<forall>w \<in> set (0 # ws). sint (of_nat (w * 100 div n) :: i32) = int (w * 100 div n) \<and> w * 100 div n \<le> 100)"
proof -
  have z: "java_div 0 (of_nat n) = Some 0" using progress_small [OF assms(1,2), of 0] by simp
  have l: "last (0 # ws) \<le> n" using assms(1,3) by (cases ws) auto
  have e: "(of_nat n :: i32) = of_nat (last (0 # ws)) \<longleftrightarrow> n = last (0 # ws)"
    by (rule of_nat_eq_small) (use l assms(2) in simp_all)
  have p: "w * 100 div n \<le> 100" if "w \<le> n" for w
    using that assms(1) div_le_mono [of "w * 100" "n * 100" n] by simp
  then have "\<forall>w \<in> set (0 # ws). sint (of_nat (w * 100 div n) :: i32) = int (w * 100 div n) \<and> w * 100 div n \<le> 100"
    using assms(3) sint_of_nat_small [of "w * 100 div n" for w] by (force dest: p)
  then show ?thesis
    using talk_loop_writes [OF assms, of 0] z e
    by (auto simp: talkWithSocket_def talk_finally_def buffer_le_bytes)
qed

theorem dfu_progress_reported_witness:
  "talkWithSocket True (Accepted (sends [2048, 1024, 2048] @ [SockEnd])) =
     ([TalkBind, TalkAccept, TalkBroadcast 0, TalkBroadcast 50, TalkBroadcast 100,
       TalkCloseClient, TalkCloseServer], TalkEnded)"
  using dfu_progress_reported [of 2048 "[1024, 2048]"] by simp

text \<open>C40: what the percentage does outside that range. A complete file of 21474837 to 42949672 bytes
  ends with a percentage between -99 and 0, because the product with 100 leaves the 32 bits. A
  file size of 0 divides by zero: the thread dies and, size and count being equal, no client is
  told. When the socket's name is still in use the clients are told -1 at once, although
  \<open>dfu-util\<close> has not even been started.\<close>

theorem dfu_progress_errors:
  assumes "21474837 \<le> n" and "n \<le> 42949672"
  shows "talkWithSocket True (Accepted (sends [n, n] @ [SockEnd])) =
      ([TalkBind, TalkAccept, TalkBroadcast 0, TalkBroadcast (- of_nat (2 ^ 32 div n - 100)),
        TalkCloseClient, TalkCloseServer], TalkEnded) \<and>
    2 ^ 32 div n - 100 \<le> 99 \<and>
    talkWithSocket True (Accepted (sends [0] @ rs)) =
      ([TalkBind, TalkAccept, TalkCloseClient, TalkCloseServer], TalkDivisionByZero) \<and>
    talkWithSocket False a = ([TalkBroadcast (- 1)], TalkIOException)"
proof -
  have n: "(of_nat n :: i32) \<noteq> - 1" by (rule of_nat_not_sentinel) (use assms in simp)
  have z: "java_div 0 (of_nat n) = Some 0"
    using java_div_small [of n 0] assms by simp
  have "2 ^ 32 div n \<le> 2 ^ 32 div 21474837" by (rule div_le_mono2) (use assms in simp_all)
  then show ?thesis
    using n z progress_overflow [OF assms]
    by (simp add: talkWithSocket_def talk_finally_def buffer_le_bytes java_div_def [of 0 0] Let_def le_diff_conv)
qed

theorem dfu_progress_errors_witness:
  "talkWithSocket True (Accepted (sends [30000000, 30000000] @ [SockEnd])) =
     ([TalkBind, TalkAccept, TalkBroadcast 0, TalkBroadcast (- 43), TalkCloseClient, TalkCloseServer],
      TalkEnded)"
  using dfu_progress_errors [of 30000000 "[]" AcceptBlocks] by simp

end
