(* ===== verification/Binder.thy ===== *)
theory Binder
  imports NativeService
begin

text \<open>
  What the Binder classes of \<open>jni/binder\<close> use of Android's Binder library, which is not part of
  the repository: the record \<open>binder_lib\<close> is a parameter of the definitions, for any type of
  parcels \<open>'p\<close>, of binder references \<open>'b\<close>, of interface pointers \<open>'i\<close> and of service states
  \<open>'s\<close>. A read returns the value and the parcel at its new read position. \<open>fifo\<close> is the
  documented behaviour of \<open>Parcel\<close> the proxies and stubs rely on: items come out in the order
  they went in.
\<close>

record ('p, 'b, 'i, 's) binder_lib =
  FIRST_CALL_TRANSACTION :: nat
  PERMISSION_DENIED :: int
  new_Parcel :: 'p
  writeInterfaceToken :: "string \<Rightarrow> 'p \<Rightarrow> 'p"
  writeString8 :: "string \<Rightarrow> 'p \<Rightarrow> 'p"
  writeInt32 :: "int \<Rightarrow> 'p \<Rightarrow> 'p"
  writeStrongBinder :: "'b option \<Rightarrow> 'p \<Rightarrow> 'p"
  checkInterface :: "string \<Rightarrow> 'p \<Rightarrow> bool \<times> 'p"
  readString8 :: "'p \<Rightarrow> string \<times> 'p"
  readInt32 :: "'p \<Rightarrow> int \<times> 'p"
  readStrongBinder :: "'p \<Rightarrow> 'b option \<times> 'p"
  asBinder :: "'i option \<Rightarrow> 'b option"
  interface_cast :: "'b option \<Rightarrow> 'i option"
  BBinder_onTransact :: "nat \<Rightarrow> 'p \<Rightarrow> 'p \<Rightarrow> 's \<Rightarrow> int \<times> 'p \<times> 's"

text \<open>The remote end of a proxy: the status, the reply and the new state of the service.\<close>

type_synonym ('p, 's) remote = "nat \<Rightarrow> 'p \<Rightarrow> 's \<Rightarrow> fault + (int \<times> 'p \<times> 's)"

datatype 'b item =
    PToken (the_token: string)
  | PStr (the_str: string)
  | PInt (the_int: int)
  | PBinder (the_binder: "'b option")

definition fifo :: "('p, 'b, 'i, 's) binder_lib \<Rightarrow> ('p \<Rightarrow> 'b item list) \<Rightarrow> bool" where
  "fifo L content \<longleftrightarrow>
     content (new_Parcel L) = [] \<and>
     (\<forall>p t. content (writeInterfaceToken L t p) = content p @ [PToken t]) \<and>
     (\<forall>p s. content (writeString8 L s p) = content p @ [PStr s]) \<and>
     (\<forall>p i. content (writeInt32 L i p) = content p @ [PInt i]) \<and>
     (\<forall>p b. content (writeStrongBinder L b p) = content p @ [PBinder b]) \<and>
     (\<forall>p t xs d. content p = PToken t # xs \<longrightarrow>
        fst (checkInterface L d p) = (t = d) \<and> content (snd (checkInterface L d p)) = xs) \<and>
     (\<forall>p s xs. content p = PStr s # xs \<longrightarrow> fst (readString8 L p) = s \<and> content (snd (readString8 L p)) = xs) \<and>
     (\<forall>p i xs. content p = PInt i # xs \<longrightarrow> fst (readInt32 L p) = i \<and> content (snd (readInt32 L p)) = xs) \<and>
     (\<forall>p b xs. content p = PBinder b # xs \<longrightarrow>
        fst (readStrongBinder L p) = b \<and> content (snd (readStrongBinder L p)) = xs)"

lemma fifo_writes:
  assumes "fifo L content"
  shows "content (new_Parcel L) = []"
    and "content (writeInterfaceToken L t p) = content p @ [PToken t]"
    and "content (writeString8 L s p) = content p @ [PStr s]"
    and "content (writeInt32 L i p) = content p @ [PInt i]"
    and "content (writeStrongBinder L b p) = content p @ [PBinder b]"
  using assms by (simp_all add: fifo_def)

text \<open>The reads as rewrite rules: the first item has the kind that is read.\<close>

lemma fifo_read_token:
  assumes "fifo L content" and "content p \<noteq> []" and "is_PToken (hd (content p))"
  shows "fst (checkInterface L d p) = (the_token (hd (content p)) = d)" and "content (snd (checkInterface L d p)) = tl (content p)"
  using assms by (cases "content p"; cases "hd (content p)"; simp add: fifo_def)+

lemma fifo_read_str:
  assumes "fifo L content" and "content p \<noteq> []" and "is_PStr (hd (content p))"
  shows "fst (readString8 L p) = the_str (hd (content p))" and "content (snd (readString8 L p)) = tl (content p)"
  using assms by (cases "content p"; cases "hd (content p)"; simp add: fifo_def)+

lemma fifo_read_int:
  assumes "fifo L content" and "content p \<noteq> []" and "is_PInt (hd (content p))"
  shows "fst (readInt32 L p) = the_int (hd (content p))" and "content (snd (readInt32 L p)) = tl (content p)"
  using assms by (cases "content p"; cases "hd (content p)"; simp add: fifo_def)+

lemma fifo_read_binder:
  assumes "fifo L content" and "content p \<noteq> []" and "is_PBinder (hd (content p))"
  shows "fst (readStrongBinder L p) = the_binder (hd (content p))" and "content (snd (readStrongBinder L p)) = tl (content p)"
  using assms by (cases "content p"; cases "hd (content p)"; simp add: fifo_def)+

lemmas fifo_simps = fifo_writes fifo_read_token fifo_read_str fifo_read_int fifo_read_binder

text \<open>Parcels as lists of items, with the values Android's parcel returns for a failed read.\<close>

definition list_binder :: "('b item list, 'b, 'b, 's) binder_lib" where
  "list_binder = \<lparr>FIRST_CALL_TRANSACTION = 1, PERMISSION_DENIED = -1, new_Parcel = [],
     writeInterfaceToken = (\<lambda>t p. p @ [PToken t]), writeString8 = (\<lambda>s p. p @ [PStr s]),
     writeInt32 = (\<lambda>i p. p @ [PInt i]), writeStrongBinder = (\<lambda>b p. p @ [PBinder b]),
     checkInterface = (\<lambda>d p. case p of PToken t # xs \<Rightarrow> (t = d, xs) | _ \<Rightarrow> (False, p)),
     readString8 = (\<lambda>p. case p of PStr s # xs \<Rightarrow> (s, xs) | _ \<Rightarrow> ('''', p)),
     readInt32 = (\<lambda>p. case p of PInt i # xs \<Rightarrow> (i, xs) | _ \<Rightarrow> (0, p)),
     readStrongBinder = (\<lambda>p. case p of PBinder b # xs \<Rightarrow> (b, xs) | _ \<Rightarrow> (None, p)),
     asBinder = (\<lambda>x. x), interface_cast = (\<lambda>x. x),
     BBinder_onTransact = (\<lambda>code data reply s. (-1, reply, s))\<rparr>"

lemma list_binder_fields:
  "FIRST_CALL_TRANSACTION list_binder = 1" "PERMISSION_DENIED list_binder = -1" "new_Parcel list_binder = []"
  "asBinder list_binder = (\<lambda>x. x)" "interface_cast list_binder = (\<lambda>x. x)"
  by (simp_all add: list_binder_def)

lemma fifo_list_binder: "fifo list_binder (\<lambda>p. p)"
  by (simp add: fifo_def list_binder_def)

end
