(* ===== verification/BinderService.thy ===== *)
theory BinderService
  imports Binder
begin

text \<open>
  \<open>jni/binder/IVRNativeService.cpp\<close>: the proxy and the stub of the native service. A proxy
  operation marshals its arguments, calls \<open>transact\<close> on the remote end and unmarshals the reply;
  \<open>BnVRNativeService_onTransact\<close> dispatches on the code, unmarshals, calls the virtual function of
  the service and marshals its result. The virtual functions are the record \<open>vr_vtable\<close>; an
  operation on the service state may be undefined. The compiler chooses the order in which the three
  reads among the arguments of \<open>setThreadScheduler\<close> are evaluated: the order is the parameter
  \<open>ord\<close>, the positions of the arguments in the order of evaluation.
\<close>

definition SERVER_PACK_NAME :: string where
  "SERVER_PACK_NAME = ''com.android.VRAdmin.IVRNativeService''"

definition VRACTION_GETNODE :: "('p, 'b, 'i, 's) binder_lib \<Rightarrow> nat" where
  "VRACTION_GETNODE L = FIRST_CALL_TRANSACTION L"

definition VRACTION_SETNODE :: "('p, 'b, 'i, 's) binder_lib \<Rightarrow> nat" where
  "VRACTION_SETNODE L = FIRST_CALL_TRANSACTION L + 1"

definition VRACTION_SYSCALL :: "('p, 'b, 'i, 's) binder_lib \<Rightarrow> nat" where
  "VRACTION_SYSCALL L = FIRST_CALL_TRANSACTION L + 2"

definition VRACTION_GETATTR :: "('p, 'b, 'i, 's) binder_lib \<Rightarrow> nat" where
  "VRACTION_GETATTR L = FIRST_CALL_TRANSACTION L + 3"

definition VRACTION_SETATTR :: "('p, 'b, 'i, 's) binder_lib \<Rightarrow> nat" where
  "VRACTION_SETATTR L = FIRST_CALL_TRANSACTION L + 4"

definition VRACTION_SETSCHED :: "('p, 'b, 'i, 's) binder_lib \<Rightarrow> nat" where
  "VRACTION_SETSCHED L = FIRST_CALL_TRANSACTION L + 5"

definition VRACTION_SETPOSTEVENTOBJ :: "('p, 'b, 'i, 's) binder_lib \<Rightarrow> nat" where
  "VRACTION_SETPOSTEVENTOBJ L = FIRST_CALL_TRANSACTION L + 6"

lemmas action_defs = VRACTION_GETNODE_def VRACTION_SETNODE_def VRACTION_SYSCALL_def
  VRACTION_GETATTR_def VRACTION_SETATTR_def VRACTION_SETSCHED_def VRACTION_SETPOSTEVENTOBJ_def

type_synonym 's str_op = "string \<Rightarrow> string \<Rightarrow> 's \<Rightarrow> fault + (int \<times> string \<times> 's)"
type_synonym 's set_op = "string \<Rightarrow> string \<Rightarrow> 's \<Rightarrow> fault + (int \<times> 's)"

record ('i, 's) vr_vtable =
  vt_getSystemNode :: "'s str_op"
  vt_setSystemNode :: "'s set_op"
  vt_systemCall :: "'s str_op"
  vt_getProperty :: "'s str_op"
  vt_setProperty :: "'s set_op"
  vt_setThreadScheduler :: "int \<Rightarrow> int \<Rightarrow> int \<Rightarrow> 's \<Rightarrow> fault + (int \<times> 's)"
  vt_setPostEventObj :: "'i option \<Rightarrow> 's \<Rightarrow> fault + (int \<times> 's)"

section \<open>The proxy\<close>

definition request :: "('p, 'b, 'i, 's) binder_lib \<Rightarrow> 'p" where
  "request L = writeInterfaceToken L SERVER_PACK_NAME (new_Parcel L)"

definition Bp_getSystemNode ::
  "('p, 'b, 'i, 's) binder_lib \<Rightarrow> ('p, 's) remote \<Rightarrow> 's str_op" where
  "Bp_getSystemNode L transact path value s =
     (let data = writeString8 L path (request L)
      in fbind (transact (VRACTION_GETNODE L) data s) (\<lambda>(status, reply, s').
           if status \<noteq> 0 then Inr (status, value, s')
           else (let (value', reply) = readString8 L reply; (ret, reply) = readInt32 L reply
                 in Inr (ret, value', s'))))"

definition Bp_setSystemNode ::
  "('p, 'b, 'i, 's) binder_lib \<Rightarrow> ('p, 's) remote \<Rightarrow> 's set_op" where
  "Bp_setSystemNode L transact path value s =
     (let data = writeString8 L value (writeString8 L path (request L))
      in fbind (transact (VRACTION_SETNODE L) data s) (\<lambda>(status, reply, s').
           if status \<noteq> 0 then Inr (status, s') else Inr (fst (readInt32 L reply), s')))"

definition Bp_systemCall ::
  "('p, 'b, 'i, 's) binder_lib \<Rightarrow> ('p, 's) remote \<Rightarrow> 's str_op" where
  "Bp_systemCall L transact cmd result s =
     (let data = writeString8 L cmd (request L)
      in fbind (transact (VRACTION_SYSCALL L) data s) (\<lambda>(status, reply, s').
           if status \<noteq> 0 then Inr (status, result, s')
           else (let (result', reply) = readString8 L reply; (ret, reply) = readInt32 L reply
                 in Inr (ret, result', s'))))"

definition Bp_getProperty ::
  "('p, 'b, 'i, 's) binder_lib \<Rightarrow> ('p, 's) remote \<Rightarrow> 's str_op" where
  "Bp_getProperty L transact key value s =
     (let data = writeString8 L key (request L)
      in fbind (transact (VRACTION_GETATTR L) data s) (\<lambda>(status, reply, s').
           if status \<noteq> 0 then Inr (status, value, s')
           else (let (value', reply) = readString8 L reply; (ret, reply) = readInt32 L reply
                 in Inr (ret, value', s'))))"

definition Bp_setProperty ::
  "('p, 'b, 'i, 's) binder_lib \<Rightarrow> ('p, 's) remote \<Rightarrow> 's set_op" where
  "Bp_setProperty L transact key value s =
     (let data = writeString8 L value (writeString8 L key (request L))
      in fbind (transact (VRACTION_SETATTR L) data s) (\<lambda>(status, reply, s').
           if status \<noteq> 0 then Inr (status, s') else Inr (fst (readInt32 L reply), s')))"

definition Bp_setThreadScheduler ::
  "('p, 'b, 'i, 's) binder_lib \<Rightarrow> ('p, 's) remote \<Rightarrow> int \<Rightarrow> int \<Rightarrow> int \<Rightarrow> 's \<Rightarrow> fault + (int \<times> 's)" where
  "Bp_setThreadScheduler L transact tid policy pri s =
     (let data = writeInt32 L pri (writeInt32 L policy (writeInt32 L tid (request L)))
      in fbind (transact (VRACTION_SETSCHED L) data s) (\<lambda>(status, reply, s').
           if status \<noteq> 0 then Inr (status, s') else Inr (fst (readInt32 L reply), s')))"

definition Bp_setPostEventObj ::
  "('p, 'b, 'i, 's) binder_lib \<Rightarrow> ('p, 's) remote \<Rightarrow> 'i option \<Rightarrow> 's \<Rightarrow> fault + (int \<times> 's)" where
  "Bp_setPostEventObj L transact iPostEvent s =
     (let data = writeStrongBinder L (asBinder L iPostEvent) (request L)
      in fbind (transact (VRACTION_SETPOSTEVENTOBJ L) data s) (\<lambda>(status, reply, s').
           if status \<noteq> 0 then Inr (status, s') else Inr (fst (readInt32 L reply), s')))"

text \<open>The proxy object: its virtual functions.\<close>

definition bp_vtable :: "('p, 'b, 'i, 's) binder_lib \<Rightarrow> ('p, 's) remote \<Rightarrow> ('i, 's) vr_vtable" where
  "bp_vtable L transact =
     \<lparr>vt_getSystemNode = Bp_getSystemNode L transact, vt_setSystemNode = Bp_setSystemNode L transact,
      vt_systemCall = Bp_systemCall L transact, vt_getProperty = Bp_getProperty L transact,
      vt_setProperty = Bp_setProperty L transact,
      vt_setThreadScheduler = Bp_setThreadScheduler L transact,
      vt_setPostEventObj = Bp_setPostEventObj L transact\<rparr>"

section \<open>The stub\<close>

text \<open>\<open>CHECK_INTERFACE\<close>: the rest of the case runs on the data after the token.\<close>

definition check_interface ::
  "('p, 'b, 'i, 's) binder_lib \<Rightarrow> string \<Rightarrow> 'p \<Rightarrow> 'p \<Rightarrow> 's \<Rightarrow>
     ('p \<Rightarrow> fault + (int \<times> 'p \<times> 's)) \<Rightarrow> fault + (int \<times> 'p \<times> 's)" where
  "check_interface L descriptor data reply s rest =
     (let (ok, data') = checkInterface L descriptor data
      in if ok then rest data' else Inr (PERMISSION_DENIED L, reply, s))"

definition stub_str_op ::
  "('p, 'b, 'i, 's) binder_lib \<Rightarrow> 's str_op \<Rightarrow> 'p \<Rightarrow> 'p \<Rightarrow> 's \<Rightarrow> fault + (int \<times> 'p \<times> 's)" where
  "stub_str_op L op data reply s =
     (let (arg, data') = readString8 L data
      in fbind (op arg '''' s) (\<lambda>(ret, value, s').
           Inr (0, writeInt32 L ret (writeString8 L value reply), s')))"

definition stub_set_op ::
  "('p, 'b, 'i, 's) binder_lib \<Rightarrow> 's set_op \<Rightarrow> 'p \<Rightarrow> 'p \<Rightarrow> 's \<Rightarrow> fault + (int \<times> 'p \<times> 's)" where
  "stub_set_op L op data reply s =
     (let (arg, data1) = readString8 L data; (value, data2) = readString8 L data1
      in fbind (op arg value s) (\<lambda>(ret, s'). Inr (0, writeInt32 L ret reply, s')))"

definition read_three :: "('p, 'b, 'i, 's) binder_lib \<Rightarrow> nat list \<Rightarrow> 'p \<Rightarrow> int list" where
  "read_three L ord data =
     (let (x, data1) = readInt32 L data; (y, data2) = readInt32 L data1; (z, data3) = readInt32 L data2
      in ([0, 0, 0])[ord ! 0 := x, ord ! 1 := y, ord ! 2 := z])"

definition stub_sched ::
  "('p, 'b, 'i, 's) binder_lib \<Rightarrow> nat list \<Rightarrow> ('i, 's) vr_vtable \<Rightarrow> 'p \<Rightarrow> 'p \<Rightarrow> 's \<Rightarrow>
     fault + (int \<times> 'p \<times> 's)" where
  "stub_sched L ord vt data reply s =
     (let args = read_three L ord data
      in fbind (vt_setThreadScheduler vt (args ! 0) (args ! 1) (args ! 2) s) (\<lambda>(ret, s').
           Inr (0, writeInt32 L ret reply, s')))"

definition stub_post_obj ::
  "('p, 'b, 'i, 's) binder_lib \<Rightarrow> ('i, 's) vr_vtable \<Rightarrow> 'p \<Rightarrow> 'p \<Rightarrow> 's \<Rightarrow> fault + (int \<times> 'p \<times> 's)" where
  "stub_post_obj L vt data reply s =
     (let (b, data') = readStrongBinder L data
      in fbind (vt_setPostEventObj vt (interface_cast L b) s) (\<lambda>(ret, s').
           Inr (NO_ERROR, writeInt32 L ret reply, s')))"

definition BnVRNativeService_onTransact ::
  "('p, 'b, 'i, 's) binder_lib \<Rightarrow> nat list \<Rightarrow> ('i, 's) vr_vtable \<Rightarrow> nat \<Rightarrow> 'p \<Rightarrow> 'p \<Rightarrow> 's \<Rightarrow>
     fault + (int \<times> 'p \<times> 's)" where
  "BnVRNativeService_onTransact L ord vt code data reply s =
     (let checked = (\<lambda>rest. check_interface L SERVER_PACK_NAME data reply s (\<lambda>data'. rest data' reply s))
      in if code = VRACTION_GETNODE L then checked (stub_str_op L (vt_getSystemNode vt))
         else if code = VRACTION_SETNODE L then checked (stub_set_op L (vt_setSystemNode vt))
         else if code = VRACTION_SYSCALL L then checked (stub_str_op L (vt_systemCall vt))
         else if code = VRACTION_GETATTR L then checked (stub_str_op L (vt_getProperty vt))
         else if code = VRACTION_SETATTR L then checked (stub_set_op L (vt_setProperty vt))
         else if code = VRACTION_SETSCHED L then checked (stub_sched L ord vt)
         else if code = VRACTION_SETPOSTEVENTOBJ L then checked (stub_post_obj L vt)
         else Inr (BBinder_onTransact L code data reply s))"

text \<open>The driver in between: the remote end runs the stub on an empty reply.\<close>

definition served_by ::
  "('p, 'b, 'i, 's) binder_lib \<Rightarrow> nat list \<Rightarrow> ('i, 's) vr_vtable \<Rightarrow> ('p, 's) remote" where
  "served_by L ord vt code data s = BnVRNativeService_onTransact L ord vt code data (new_Parcel L) s"

section \<open>Marshalling\<close>

lemma content_request: "fifo L content \<Longrightarrow> content (request L) = [PToken SERVER_PACK_NAME]"
  by (simp add: request_def fifo_writes)

lemma check_interface_ok:
  assumes "fifo L content" and "content data = PToken d # xs"
  shows "check_interface L d data reply s rest = rest (snd (checkInterface L d data))"
    and "content (snd (checkInterface L d data)) = xs"
  using fifo_read_token [OF assms(1), of data d] assms(2) by (simp_all add: check_interface_def split_beta)

lemma stub_str_op_ok:
  assumes "fifo L content" and "content data = [PStr arg]"
  shows "stub_str_op L op data reply s = fbind (op arg '''' s) (\<lambda>(ret, value, s').
    Inr (0, writeInt32 L ret (writeString8 L value reply), s'))"
  using fifo_read_str [OF assms(1), of data] assms(2) by (simp add: stub_str_op_def split_beta)

lemma stub_set_op_ok:
  assumes "fifo L content" and "content data = [PStr arg, PStr value]"
  shows "stub_set_op L op data reply s = fbind (op arg value s) (\<lambda>(ret, s').
    Inr (0, writeInt32 L ret reply, s'))"
proof -
  have d: "fst (readString8 L data) = arg" "content (snd (readString8 L data)) = [PStr value]"
    using fifo_read_str [OF assms(1), of data] assms(2) by simp_all
  then have "fst (readString8 L (snd (readString8 L data))) = value"
    using fifo_read_str [OF assms(1), of "snd (readString8 L data)"] by simp
  with d show ?thesis by (simp add: stub_set_op_def split_beta)
qed

lemma read_three_ok:
  assumes "fifo L content" and "content data = [PInt x, PInt y, PInt z]"
  shows "read_three L ord data = ([0, 0, 0])[ord ! 0 := x, ord ! 1 := y, ord ! 2 := z]"
proof -
  let ?d1 = "snd (readInt32 L data)" and ?d2 = "snd (readInt32 L (snd (readInt32 L data)))"
  have 1: "fst (readInt32 L data) = x" "content ?d1 = [PInt y, PInt z]"
    using fifo_read_int [OF assms(1), of data] assms(2) by simp_all
  then have 2: "fst (readInt32 L ?d1) = y" "content ?d2 = [PInt z]"
    using fifo_read_int [OF assms(1), of ?d1] by simp_all
  then have "fst (readInt32 L ?d2) = z"
    using fifo_read_int [OF assms(1), of ?d2] by simp
  with 1 2 show ?thesis by (simp add: read_three_def split_beta del: list_update.simps)
qed

text \<open>What the proxy reads from the reply of the two kinds of operations.\<close>

lemma reply_str:
  assumes "fifo L content"
  shows "(let (value', reply) = readString8 L (writeInt32 L ret (writeString8 L value (new_Parcel L)));
      (r, reply) = readInt32 L reply in Inr (r, value', s')) = Inr (ret, value, s')"
proof -
  let ?r = "writeInt32 L ret (writeString8 L value (new_Parcel L))"
  have c: "content ?r = [PStr value, PInt ret]" by (simp add: fifo_writes [OF assms])
  then have "fst (readString8 L ?r) = value" "content (snd (readString8 L ?r)) = [PInt ret]"
    using fifo_read_str [OF assms, of ?r] by simp_all
  then show ?thesis
    using fifo_read_int [OF assms, of "snd (readString8 L ?r)"] by (simp add: split_beta)
qed

lemma reply_int:
  assumes "fifo L content"
  shows "fst (readInt32 L (writeInt32 L ret (new_Parcel L))) = ret"
  using fifo_read_int [OF assms, of "writeInt32 L ret (new_Parcel L)"] by (simp add: fifo_writes [OF assms])

text \<open>A call that goes through the driver runs the case of its code on the marshalled data.\<close>

lemma served_case:
  assumes "fifo L content" and "content data = PToken SERVER_PACK_NAME # xs"
  obtains data' where "content data' = xs"
    and "served_by L ord vt (VRACTION_GETNODE L) data s = stub_str_op L (vt_getSystemNode vt) data' (new_Parcel L) s"
    and "served_by L ord vt (VRACTION_SETNODE L) data s = stub_set_op L (vt_setSystemNode vt) data' (new_Parcel L) s"
    and "served_by L ord vt (VRACTION_SYSCALL L) data s = stub_str_op L (vt_systemCall vt) data' (new_Parcel L) s"
    and "served_by L ord vt (VRACTION_GETATTR L) data s = stub_str_op L (vt_getProperty vt) data' (new_Parcel L) s"
    and "served_by L ord vt (VRACTION_SETATTR L) data s = stub_set_op L (vt_setProperty vt) data' (new_Parcel L) s"
    and "served_by L ord vt (VRACTION_SETSCHED L) data s = stub_sched L ord vt data' (new_Parcel L) s"
    and "served_by L ord vt (VRACTION_SETPOSTEVENTOBJ L) data s = stub_post_obj L vt data' (new_Parcel L) s"
  using check_interface_ok [OF assms]
  by (simp add: served_by_def BnVRNativeService_onTransact_def Let_def action_defs)

lemma str_op_trip:
  assumes "fifo L content" and "content data' = [PStr arg]"
  shows "fbind (stub_str_op L op data' (new_Parcel L) s) (\<lambda>(status, reply, s').
      if status \<noteq> 0 then Inr (status, v, s')
      else (let (value', reply) = readString8 L reply; (ret, reply) = readInt32 L reply
            in Inr (ret, value', s'))) = op arg '''' s"
  using stub_str_op_ok [OF assms] reply_str [OF assms(1)]
  by (cases "op arg '''' s") (auto simp: split_beta)

lemma set_op_trip:
  assumes "fifo L content" and "content data' = [PStr arg, PStr value]"
  shows "fbind (stub_set_op L op data' (new_Parcel L) s) (\<lambda>(status, reply, s').
      if status \<noteq> 0 then Inr (status, s') else Inr (fst (readInt32 L reply), s')) = op arg value s"
  using stub_set_op_ok [OF assms] reply_int [OF assms(1)]
  by (cases "op arg value s") (auto simp: split_beta)

lemma sched_trip:
  assumes "fifo L content" and "content data' = [PInt x, PInt y, PInt z]"
  shows "fbind (stub_sched L ord vt data' (new_Parcel L) s) (\<lambda>(status, reply, s').
      if status \<noteq> 0 then Inr (status, s') else Inr (fst (readInt32 L reply), s')) =
    (let a = ([0, 0, 0])[ord ! 0 := x, ord ! 1 := y, ord ! 2 := z]
     in vt_setThreadScheduler vt (a ! 0) (a ! 1) (a ! 2) s)"
proof -
  let ?a = "([0, 0, 0])[ord ! 0 := x, ord ! 1 := y, ord ! 2 := z]"
  show ?thesis
    using read_three_ok [OF assms] reply_int [OF assms(1)]
    by (cases "vt_setThreadScheduler vt (?a ! 0) (?a ! 1) (?a ! 2) s") (auto simp: stub_sched_def Let_def)
qed

lemma post_obj_trip:
  assumes "fifo L content" and "content data' = [PBinder b]"
  shows "fbind (stub_post_obj L vt data' (new_Parcel L) s) (\<lambda>(status, reply, s').
      if status \<noteq> 0 then Inr (status, s') else Inr (fst (readInt32 L reply), s')) =
    vt_setPostEventObj vt (interface_cast L b) s"
  using fifo_read_binder [OF assms(1), of data'] assms(2) reply_int [OF assms(1)]
  by (cases "vt_setPostEventObj vt (interface_cast L b) s") (auto simp: stub_post_obj_def split_beta NO_ERROR_def)

section \<open>Each proxy operation over its stub\<close>

lemma call_get_node:
  "fifo L content \<Longrightarrow> Bp_getSystemNode L (served_by L ord vt) path value s = vt_getSystemNode vt path '''' s"
  by (rule served_case [of L content "writeString8 L path (request L)" "[PStr path]" ord vt s])
    (simp_all add: Bp_getSystemNode_def str_op_trip content_request fifo_writes)

lemma call_set_node:
  "fifo L content \<Longrightarrow> Bp_setSystemNode L (served_by L ord vt) path value s = vt_setSystemNode vt path value s"
  by (rule served_case [of L content "writeString8 L value (writeString8 L path (request L))"
        "[PStr path, PStr value]" ord vt s])
    (simp_all add: Bp_setSystemNode_def set_op_trip content_request fifo_writes)

lemma call_system:
  "fifo L content \<Longrightarrow> Bp_systemCall L (served_by L ord vt) cmd result s = vt_systemCall vt cmd '''' s"
  by (rule served_case [of L content "writeString8 L cmd (request L)" "[PStr cmd]" ord vt s])
    (simp_all add: Bp_systemCall_def str_op_trip content_request fifo_writes)

lemma call_get_property:
  "fifo L content \<Longrightarrow> Bp_getProperty L (served_by L ord vt) key value s = vt_getProperty vt key '''' s"
  by (rule served_case [of L content "writeString8 L key (request L)" "[PStr key]" ord vt s])
    (simp_all add: Bp_getProperty_def str_op_trip content_request fifo_writes)

lemma call_set_property:
  "fifo L content \<Longrightarrow> Bp_setProperty L (served_by L ord vt) key value s = vt_setProperty vt key value s"
  by (rule served_case [of L content "writeString8 L value (writeString8 L key (request L))"
        "[PStr key, PStr value]" ord vt s])
    (simp_all add: Bp_setProperty_def set_op_trip content_request fifo_writes)

lemma call_sched:
  assumes "fifo L content"
  shows "Bp_setThreadScheduler L (served_by L ord vt) x y z s =
    (let a = ([0, 0, 0])[ord ! 0 := x, ord ! 1 := y, ord ! 2 := z]
     in vt_setThreadScheduler vt (a ! 0) (a ! 1) (a ! 2) s)"
proof -
  let ?d = "writeInt32 L z (writeInt32 L y (writeInt32 L x (request L)))"
  have c: "content ?d = PToken SERVER_PACK_NAME # [PInt x, PInt y, PInt z]"
    by (simp add: content_request [OF assms] fifo_writes [OF assms])
  from served_case [OF assms c, of ord vt s] obtain data' where
    "content data' = [PInt x, PInt y, PInt z]"
    "served_by L ord vt (VRACTION_SETSCHED L) ?d s = stub_sched L ord vt data' (new_Parcel L) s" by metis
  then show ?thesis
    unfolding Bp_setThreadScheduler_def using sched_trip [OF assms, of data' x y z ord vt s]
    by (simp del: list_update.simps)
qed

lemma call_post_obj:
  "fifo L content \<Longrightarrow> Bp_setPostEventObj L (served_by L ord vt) ob s =
     vt_setPostEventObj vt (interface_cast L (asBinder L ob)) s"
  by (rule served_case [of L content "writeStrongBinder L (asBinder L ob) (request L)"
        "[PBinder (asBinder L ob)]" ord vt s])
    (simp_all add: Bp_setPostEventObj_def post_obj_trip content_request fifo_writes)

section \<open>Properties\<close>

definition demo_vtable :: "(nat, int list) vr_vtable" where
  "demo_vtable = \<lparr>vt_getSystemNode = (\<lambda>p v s. Inr (0, p @ ''='', 1 # s)),
     vt_setSystemNode = (\<lambda>p v s. Inr (int (length v), 2 # s)), vt_systemCall = (\<lambda>c r s. Inr (3, c, 3 # s)),
     vt_getProperty = (\<lambda>k v s. Inr (4, k, 4 # s)), vt_setProperty = (\<lambda>k v s. Inr (5, 5 # s)),
     vt_setThreadScheduler = (\<lambda>t p q s. Inr (0, [t, p, q])), vt_setPostEventObj = (\<lambda>b s. Inr (0, 7 # s))\<rparr>"

text \<open>C11: over a parcel that keeps its items in order, calling any of the six string and object
  operations on the proxy is calling the service itself: the same result, the same output
  string, the same undefined cases and the same state, with an empty string as the initial
  output. So the codes, the order of the marshalled items and the cases of the switch of proxy
  and stub agree.\<close>

theorem proxy_is_service:
  assumes "fifo L content"
  shows "Bp_getSystemNode L (served_by L ord vt) a v s = vt_getSystemNode vt a '''' s \<and>
    Bp_setSystemNode L (served_by L ord vt) a v s = vt_setSystemNode vt a v s \<and>
    Bp_systemCall L (served_by L ord vt) a v s = vt_systemCall vt a '''' s \<and>
    Bp_getProperty L (served_by L ord vt) a v s = vt_getProperty vt a '''' s \<and>
    Bp_setProperty L (served_by L ord vt) a v s = vt_setProperty vt a v s \<and>
    Bp_setPostEventObj L (served_by L ord vt) ob s =
      vt_setPostEventObj vt (interface_cast L (asBinder L ob)) s"
  by (intro conjI call_get_node [OF assms] call_set_node [OF assms] call_system [OF assms]
      call_get_property [OF assms] call_set_property [OF assms] call_post_obj [OF assms])

theorem proxy_is_service_witness:
  "Bp_setSystemNode list_binder (served_by list_binder [0, 1, 2] demo_vtable) ''node'' ''12'' [] = Inr (2, [2])"
  using proxy_is_service [OF fifo_list_binder, of "[0, 1, 2]" demo_vtable "''node''" "''12''" "[]"]
  by (simp add: demo_vtable_def)

text \<open>C33: the three numbers of \<open>setThreadScheduler\<close> reach the service in their own places when the
  compiler evaluates the reads among the call's arguments from left to right; from right to
  left, which the language allows as well, thread and priority are exchanged.\<close>

theorem sched_argument_order:
  assumes "fifo L content"
  shows "Bp_setThreadScheduler L (served_by L [0, 1, 2] vt) tid policy pri s =
      vt_setThreadScheduler vt tid policy pri s \<and>
    Bp_setThreadScheduler L (served_by L [2, 1, 0] vt) tid policy pri s =
      vt_setThreadScheduler vt pri policy tid s"
  unfolding call_sched [OF assms] by (simp add: Let_def)

theorem sched_argument_order_witness:
  "Bp_setThreadScheduler list_binder (served_by list_binder [2, 1, 0] demo_vtable) 40 1 3 [] = Inr (0, [3, 1, 40])"
  using sched_argument_order [OF fifo_list_binder, of demo_vtable 40 1 3 "[]"]
  by (simp add: demo_vtable_def)

text \<open>A transaction with a known code but another interface's token is refused with
  \<open>PERMISSION_DENIED\<close> before anything is read or called: service and reply stay as they are.
  An unknown code goes to the library's default handler.\<close>

lemma foreign_token_refused:
  assumes "\<not> fst (checkInterface L SERVER_PACK_NAME data)"
  shows "BnVRNativeService_onTransact L ord vt code data reply s =
    (if FIRST_CALL_TRANSACTION L \<le> code \<and> code < FIRST_CALL_TRANSACTION L + 7
     then Inr (PERMISSION_DENIED L, reply, s) else Inr (BBinder_onTransact L code data reply s))"
proof -
  have "check_interface L SERVER_PACK_NAME data reply s rest = Inr (PERMISSION_DENIED L, reply, s)" for rest
    using assms by (simp add: check_interface_def split_beta)
  then show ?thesis
    by (auto simp: BnVRNativeService_onTransact_def Let_def action_defs)
qed

text \<open>When the transport fails with a status, every proxy operation returns that status as if
  it were the service's result and leaves the output string of its caller unchanged.\<close>

lemma transport_failure:
  assumes "\<forall>code data. transact code data s = Inr (status, reply code data, s)" and "status \<noteq> 0"
  shows "Bp_getSystemNode L transact a v s = Inr (status, v, s) \<and>
    Bp_systemCall L transact a v s = Inr (status, v, s) \<and>
    Bp_getProperty L transact a v s = Inr (status, v, s) \<and>
    Bp_setSystemNode L transact a v s = Inr (status, s) \<and>
    Bp_setProperty L transact a v s = Inr (status, s) \<and>
    Bp_setThreadScheduler L transact t p q s = Inr (status, s) \<and>
    Bp_setPostEventObj L transact ob s = Inr (status, s)"
  using assms
  by (simp add: Bp_getSystemNode_def Bp_systemCall_def Bp_getProperty_def Bp_setSystemNode_def
      Bp_setProperty_def Bp_setThreadScheduler_def Bp_setPostEventObj_def)

end
