(* ===== verification/BinderPostEvent.thy ===== *)
theory BinderPostEvent
  imports Binder
begin

text \<open>
  \<open>jni/binder/IVRPostEvent.cpp\<close>: the proxy and the stub through which the native service reports
  events to the Java side. The string of an event may be null, an option here; a flag before it
  tells the stub whether there is one, and the stub passes the text \<open>null\<close> in its place.
\<close>

definition POSTEVENT_PACK_NAME :: string where
  "POSTEVENT_PACK_NAME = ''com.android.VRAdmin.IVRPostEvent''"

definition VRACTION_POSTEVENT :: "('p, 'b, 'i, 's) binder_lib \<Rightarrow> nat" where
  "VRACTION_POSTEVENT L = FIRST_CALL_TRANSACTION L"

type_synonym 's post_op = "int \<Rightarrow> int \<Rightarrow> int \<Rightarrow> string option \<Rightarrow> 's \<Rightarrow> fault + (int \<times> 's)"

definition Bp_post :: "('p, 'b, 'i, 's) binder_lib \<Rightarrow> ('p, 's) remote \<Rightarrow> 's post_op" where
  "Bp_post L transact what arg1 arg2 str s =
     (let data = writeInt32 L arg2 (writeInt32 L arg1 (writeInt32 L what
            (writeInterfaceToken L POSTEVENT_PACK_NAME (new_Parcel L))));
          data = (case str of Some t \<Rightarrow> writeString8 L (cstr t) (writeInt32 L 1 data)
             | None \<Rightarrow> writeInt32 L 0 data)
      in fbind (transact (VRACTION_POSTEVENT L) data s) (\<lambda>(status, reply, s').
           if status \<noteq> 0 then Inr (status, s') else Inr (fst (readInt32 L reply), s')))"

definition stub_post ::
  "('p, 'b, 'i, 's) binder_lib \<Rightarrow> 's post_op \<Rightarrow> 'p \<Rightarrow> 'p \<Rightarrow> 's \<Rightarrow> fault + (int \<times> 'p \<times> 's)" where
  "stub_post L post data reply s =
     (let (what, data) = readInt32 L data; (arg1, data) = readInt32 L data;
          (arg2, data) = readInt32 L data; (bstr, data) = readInt32 L data;
          str = (if bstr \<noteq> 0 then cstr (fst (readString8 L data)) else ''null'')
      in fbind (post what arg1 arg2 (Some str) s) (\<lambda>(ret, s'). Inr (0, writeInt32 L ret reply, s')))"

definition BnVRPostEvent_onTransact ::
  "('p, 'b, 'i, 's) binder_lib \<Rightarrow> 's post_op \<Rightarrow> nat \<Rightarrow> 'p \<Rightarrow> 'p \<Rightarrow> 's \<Rightarrow> fault + (int \<times> 'p \<times> 's)" where
  "BnVRPostEvent_onTransact L post code data reply s =
     (if code = VRACTION_POSTEVENT L then
        (let (ok, data') = checkInterface L POSTEVENT_PACK_NAME data
         in if ok then stub_post L post data' reply s else Inr (PERMISSION_DENIED L, reply, s))
      else Inr (BBinder_onTransact L code data reply s))"

definition posted_to :: "('p, 'b, 'i, 's) binder_lib \<Rightarrow> 's post_op \<Rightarrow> ('p, 's) remote" where
  "posted_to L post code data s = BnVRPostEvent_onTransact L post code data (new_Parcel L) s"

section \<open>Marshalling\<close>

lemma post_data:
  assumes "fifo L content"
  shows "content (case str of Some t \<Rightarrow> writeString8 L t (writeInt32 L 1 p) | None \<Rightarrow> writeInt32 L 0 p) =
    content p @ (case str of Some t \<Rightarrow> [PInt 1, PStr t] | None \<Rightarrow> [PInt 0])"
  by (simp add: fifo_writes [OF assms] split: option.split)

lemma stub_post_ok:
  assumes L: "fifo L content"
    and d: "content data = [PInt what, PInt arg1, PInt arg2] @ (case str of Some t \<Rightarrow> [PInt 1, PStr t] | None \<Rightarrow> [PInt 0])"
  shows "stub_post L post data reply s =
    fbind (post what arg1 arg2 (Some (case str of Some t \<Rightarrow> cstr t | None \<Rightarrow> ''null'')) s)
      (\<lambda>(ret, s'). Inr (0, writeInt32 L ret reply, s'))"
proof -
  let ?rest = "case str of Some t \<Rightarrow> [PInt 1, PStr t] | None \<Rightarrow> [PInt 0]"
  let ?d1 = "snd (readInt32 L data)"
  let ?d2 = "snd (readInt32 L ?d1)"
  let ?d3 = "snd (readInt32 L ?d2)"
  let ?d4 = "snd (readInt32 L ?d3)"
  have 1: "fst (readInt32 L data) = what" "content ?d1 = [PInt arg1, PInt arg2] @ ?rest"
    using fifo_read_int [OF L, of data] d by simp_all
  have 2: "fst (readInt32 L ?d1) = arg1" "content ?d2 = [PInt arg2] @ ?rest"
    using fifo_read_int [OF L, of ?d1] 1 by simp_all
  have 3: "fst (readInt32 L ?d2) = arg2" "content ?d3 = ?rest"
    using fifo_read_int [OF L, of ?d2] 2 by simp_all
  have 4: "fst (readInt32 L ?d3) = (if str = None then 0 else 1)"
    "content ?d4 = (case str of Some t \<Rightarrow> [PStr t] | None \<Rightarrow> [])"
    using fifo_read_int [OF L, of ?d3] 3 by (auto split: option.splits)
  show ?thesis
  proof (cases str)
    case None
    then show ?thesis using 1 2 3 4 by (simp add: stub_post_def split_beta)
  next
    case (Some t)
    then have "fst (readString8 L ?d4) = t" using fifo_read_str [OF L, of ?d4] 4 by simp
    then show ?thesis using 1 2 3 4 Some by (simp add: stub_post_def split_beta)
  qed
qed

lemma post_trip:
  assumes "fifo L content"
  shows "Bp_post L (posted_to L post) what arg1 arg2 str s =
    post what arg1 arg2 (Some (case str of Some t \<Rightarrow> cstr t | None \<Rightarrow> ''null'')) s"
proof -
  let ?h = "writeInt32 L arg2 (writeInt32 L arg1 (writeInt32 L what
      (writeInterfaceToken L POSTEVENT_PACK_NAME (new_Parcel L))))"
  let ?str = "map_option cstr str"
  let ?data = "case ?str of Some t \<Rightarrow> writeString8 L t (writeInt32 L 1 ?h) | None \<Rightarrow> writeInt32 L 0 ?h"
  let ?d = "snd (checkInterface L POSTEVENT_PACK_NAME ?data)"
  let ?text = "Some (case str of Some t \<Rightarrow> cstr t | None \<Rightarrow> ''null'')"
  have c: "content ?data = PToken POSTEVENT_PACK_NAME # [PInt what, PInt arg1, PInt arg2] @
      (case ?str of Some t \<Rightarrow> [PInt 1, PStr t] | None \<Rightarrow> [PInt 0])"
    unfolding post_data [OF assms] by (simp add: fifo_writes [OF assms])
  have ok: "fst (checkInterface L POSTEVENT_PACK_NAME ?data)"
    and d: "content ?d = [PInt what, PInt arg1, PInt arg2] @
      (case ?str of Some t \<Rightarrow> [PInt 1, PStr t] | None \<Rightarrow> [PInt 0])"
    using fifo_read_token [OF assms, of ?data POSTEVENT_PACK_NAME] unfolding c by simp_all
  have "(case ?str of Some t \<Rightarrow> cstr t | None \<Rightarrow> ''null'') = (case str of Some t \<Rightarrow> cstr t | None \<Rightarrow> ''null'')"
    by (simp split: option.split)
  then have "posted_to L post (VRACTION_POSTEVENT L) ?data s =
      fbind (post what arg1 arg2 ?text s) (\<lambda>(ret, s'). Inr (0, writeInt32 L ret (new_Parcel L), s'))"
    using stub_post_ok [OF assms d, of post "new_Parcel L" s] ok
    by (simp add: posted_to_def BnVRPostEvent_onTransact_def split_beta)
  moreover have "fst (readInt32 L (writeInt32 L r (new_Parcel L))) = r" for r
    using fifo_read_int [OF assms, of "writeInt32 L r (new_Parcel L)"] by (simp add: fifo_writes [OF assms])
  moreover have "Bp_post L (posted_to L post) what arg1 arg2 str s =
      fbind (posted_to L post (VRACTION_POSTEVENT L) ?data s) (\<lambda>(status, reply, s').
        if status \<noteq> 0 then Inr (status, s') else Inr (fst (readInt32 L reply), s'))"
    by (cases str) (simp_all add: Bp_post_def Let_def)
  ultimately show ?thesis by (cases "post what arg1 arg2 ?text s") auto
qed

section \<open>Properties\<close>

text \<open>An event posted through the proxy reaches the receiver's \<open>post\<close> with its three numbers
  and its text, and its result comes back; an event without a string arrives with the text
  \<open>null\<close>, so behind a proxy the receiver never sees a null pointer.\<close>

lemma post_through_binder:
  assumes "fifo L content"
  shows "Bp_post L (posted_to L post) what arg1 arg2 str s =
    post what arg1 arg2 (Some (case str of Some t \<Rightarrow> cstr t | None \<Rightarrow> ''null'')) s"
  by (rule post_trip [OF assms])

end
