(* ===== verification/JniBridge.thy ===== *)
theory JniBridge
  imports BinderService BinderPostEvent
begin

text \<open>
  \<open>jni/VRNativeJNI.cpp\<close>: the native methods of the Java class \<open>VRManager\<close> and the object that
  hands events of the native service to Java. The Java VM's functions are the record \<open>jni\<close>, the
  service manager is the record \<open>service_manager\<close>; both are parameters. A Java reference that may
  be null is an option. A native method returns its Java value, the state of the service it
  calls and the calls on Java references in order. What \<open>GetStringUTFChars\<close> does with a null
  string is left to the parameter: the JNI forbids the call, some VMs answer with null.
\<close>

record ('j, 'c, 'm, 'ob) jni =
  GetStringUTFChars :: "'j option \<Rightarrow> fault + string option"
  NewStringUTF :: "string \<Rightarrow> 'j option"
  GetObjectClass :: "'ob \<Rightarrow> 'c option"
  GetStaticMethodID :: "'c \<Rightarrow> string \<Rightarrow> string \<Rightarrow> 'm option"
  NewGlobalRef_class :: "'c \<Rightarrow> 'c option"
  NewGlobalRef_object :: "'ob \<Rightarrow> 'ob option"
  FindClass :: "string \<Rightarrow> 'c option"

record ('b, 'i, 's) service_manager =
  sm_getService :: "string \<Rightarrow> 'b option"
  sm_interface_cast :: "'b \<Rightarrow> ('i, 's) vr_vtable option"

datatype ('j, 'c, 'm, 'ob) jni_call =
    JGetChars
  | JReleaseChars
  | JNewString string
  | JNewGlobalClass 'c
  | JNewGlobalObject 'ob
  | JDeleteGlobalObject "'ob option"
  | JDeleteGlobalClass "'c option"
  | JCallStaticVoid 'c 'm "'ob option" int int int "'j option"
  | JDeleteLocalString 'j

definition kVRManagerClass :: string where
  "kVRManagerClass = ''com/android/VRAdmin/VRManager''"

definition SERVER_NAME :: string where
  "SERVER_NAME = ''vrserver''"

section \<open>The event object\<close>

record ('c, 'm, 'ob) jvr_post_event =
  mClass :: "'c option"
  mObject :: "'ob option"
  mPostMehodID :: "'m option"

definition new_JVRPostEvent ::
  "('j, 'c, 'm, 'ob) jni \<Rightarrow> 'ob \<Rightarrow> 'ob \<Rightarrow> ('c, 'm, 'ob) jvr_post_event \<times> ('j, 'c, 'm, 'ob) jni_call list" where
  "new_JVRPostEvent env thiz weak_thiz =
     (let this = \<lparr>mClass = None, mObject = None, mPostMehodID = None\<rparr>
      in case GetObjectClass env thiz of
           None \<Rightarrow> (this, [])
         | Some clazz \<Rightarrow>
             (case GetStaticMethodID env clazz ''postEventFromNative''
                     ''(Ljava/lang/Object;IIILjava/lang/String;)V'' of
                None \<Rightarrow> (this, [])
              | Some mid \<Rightarrow>
                  (\<lparr>mClass = NewGlobalRef_class env clazz, mObject = NewGlobalRef_object env weak_thiz,
                    mPostMehodID = Some mid\<rparr>,
                   [JNewGlobalClass clazz, JNewGlobalObject weak_thiz])))"

definition delete_JVRPostEvent ::
  "('c, 'm, 'ob) jvr_post_event \<Rightarrow> ('j, 'c, 'm, 'ob) jni_call list" where
  "delete_JVRPostEvent this = [JDeleteGlobalObject (mObject this), JDeleteGlobalClass (mClass this)]"

text \<open>
  \<open>post\<close> runs on any thread: \<open>getJNIEnv\<close> is null on one that is not attached to the VM. The JNI
  needs a class and a method for \<open>CallStaticVoidMethod\<close>.
\<close>

definition JVRPostEvent_post ::
  "('j, 'c, 'm, 'ob) jni option \<Rightarrow> ('c, 'm, 'ob) jvr_post_event \<Rightarrow> int \<Rightarrow> int \<Rightarrow> int \<Rightarrow> string option \<Rightarrow>
     fault + (int \<times> ('j, 'c, 'm, 'ob) jni_call list)" where
  "JVRPostEvent_post getJNIEnv this what arg1 arg2 str =
     (case str of
        None \<Rightarrow> Inr (0, [])
      | Some t \<Rightarrow>
          (case (getJNIEnv, mClass this, mPostMehodID this) of
             (Some env, Some clazz, Some mid) \<Rightarrow>
               (let jstr = NewStringUTF env t
                in Inr (0, [JNewString t, JCallStaticVoid clazz mid (mObject this) what arg1 arg2 jstr] @
                     (case jstr of Some j \<Rightarrow> [JDeleteLocalString j] | None \<Rightarrow> [])))
           | _ \<Rightarrow> Inl NullPointer))"

section \<open>The native methods\<close>

definition JStringToString8 ::
  "('j, 'c, 'm, 'ob) jni \<Rightarrow> 'j option \<Rightarrow> fault + (string \<times> ('j, 'c, 'm, 'ob) jni_call list)" where
  "JStringToString8 env jstr =
     fbind (GetStringUTFChars env jstr) (\<lambda>s. case s of
         None \<Rightarrow> Inr ('''', [])
       | Some t \<Rightarrow> Inr (cstr t, [JGetChars, JReleaseChars]))"

definition getVRService :: "('b, 'i, 's) service_manager \<Rightarrow> ('i, 's) vr_vtable option" where
  "getVRService sm =
     (case sm_getService sm SERVER_NAME of None \<Rightarrow> None | Some binder \<Rightarrow> sm_interface_cast sm binder)"

definition return_string ::
  "('j, 'c, 'm, 'ob) jni \<Rightarrow> string \<Rightarrow> 's \<Rightarrow> ('j, 'c, 'm, 'ob) jni_call list \<Rightarrow>
     fault + ('j option \<times> 's \<times> ('j, 'c, 'm, 'ob) jni_call list)" where
  "return_string env v s calls = Inr (NewStringUTF env (cstr v), s, calls @ [JNewString (cstr v)])"

definition native_init :: "'s \<Rightarrow> 's" where
  "native_init s = s"

definition native_setup ::
  "('j, 'c, 'm, 'ob) jni \<Rightarrow> ('b, ('c, 'm, 'ob) jvr_post_event, 's) service_manager \<Rightarrow> 'ob \<Rightarrow> 'ob \<Rightarrow> 's \<Rightarrow>
     fault + ('s \<times> ('j, 'c, 'm, 'ob) jni_call list)" where
  "native_setup env sm thiz refObj s =
     (let (reporter, calls) = new_JVRPostEvent env thiz refObj
      in case getVRService sm of
           None \<Rightarrow> Inr (s, calls @ delete_JVRPostEvent reporter)
         | Some vr \<Rightarrow> fbind (vt_setPostEventObj vr (Some reporter) s) (\<lambda>(ret, s'). Inr (s', calls)))"

definition native_getSystemNode ::
  "('j, 'c, 'm, 'ob) jni \<Rightarrow> ('b, 'i, 's) service_manager \<Rightarrow> 'j option \<Rightarrow> 's \<Rightarrow>
     fault + ('j option \<times> 's \<times> ('j, 'c, 'm, 'ob) jni_call list)" where
  "native_getSystemNode env sm jpath s =
     fbind (JStringToString8 env jpath) (\<lambda>(path, calls).
       if jpath = None then return_string env '''' s calls
       else (case getVRService sm of
               None \<Rightarrow> return_string env '''' s calls
             | Some vr \<Rightarrow> fbind (vt_getSystemNode vr path '''' s) (\<lambda>(ret, value, s').
                 return_string env value s' calls)))"

definition native_setSystemNode ::
  "('j, 'c, 'm, 'ob) jni \<Rightarrow> ('b, 'i, 's) service_manager \<Rightarrow> 'j option \<Rightarrow> 'j option \<Rightarrow> 's \<Rightarrow>
     fault + (int \<times> 's \<times> ('j, 'c, 'm, 'ob) jni_call list)" where
  "native_setSystemNode env sm jpath jvalue s =
     fbind (JStringToString8 env jpath) (\<lambda>(path, calls1).
     fbind (JStringToString8 env jvalue) (\<lambda>(value, calls2).
       if jpath = None \<or> jvalue = None then Inr (-1, s, calls1 @ calls2)
       else (case getVRService sm of
               None \<Rightarrow> Inr (-1, s, calls1 @ calls2)
             | Some vr \<Rightarrow> fbind (vt_setSystemNode vr path value s) (\<lambda>(result, s').
                 Inr (result, s', calls1 @ calls2)))))"

definition native_systemCall ::
  "('j, 'c, 'm, 'ob) jni \<Rightarrow> ('b, 'i, 's) service_manager \<Rightarrow> 'j option \<Rightarrow> 's \<Rightarrow>
     fault + ('j option \<times> 's \<times> ('j, 'c, 'm, 'ob) jni_call list)" where
  "native_systemCall env sm jcmd s =
     fbind (JStringToString8 env jcmd) (\<lambda>(cmd, calls).
       case getVRService sm of
         None \<Rightarrow> return_string env '''' s calls
       | Some vr \<Rightarrow> fbind (vt_systemCall vr cmd '''' s) (\<lambda>(ret, result, s').
           return_string env result s' calls))"

definition native_getProperty ::
  "('j, 'c, 'm, 'ob) jni \<Rightarrow> ('b, 'i, 's) service_manager \<Rightarrow> 'j option \<Rightarrow> 's \<Rightarrow>
     fault + ('j option \<times> 's \<times> ('j, 'c, 'm, 'ob) jni_call list)" where
  "native_getProperty env sm jkey s =
     fbind (JStringToString8 env jkey) (\<lambda>(key, calls).
       if jkey = None then return_string env '''' s calls
       else (case getVRService sm of
               None \<Rightarrow> return_string env '''' s calls
             | Some vr \<Rightarrow> fbind (vt_getProperty vr key '''' s) (\<lambda>(ret, value, s').
                 return_string env value s' calls)))"

definition native_setProperty ::
  "('j, 'c, 'm, 'ob) jni \<Rightarrow> ('b, 'i, 's) service_manager \<Rightarrow> 'j option \<Rightarrow> 'j option \<Rightarrow> 's \<Rightarrow>
     fault + (int \<times> 's \<times> ('j, 'c, 'm, 'ob) jni_call list)" where
  "native_setProperty env sm jkey jvalue s =
     fbind (JStringToString8 env jkey) (\<lambda>(key, calls1).
     fbind (JStringToString8 env jvalue) (\<lambda>(value, calls2).
       if jkey = None \<or> jvalue = None then Inr (-1, s, calls1 @ calls2)
       else (case getVRService sm of
               None \<Rightarrow> Inr (-1, s, calls1 @ calls2)
             | Some vr \<Rightarrow> fbind (vt_setProperty vr key value s) (\<lambda>(result, s').
                 Inr (result, s', calls1 @ calls2)))))"

definition native_setThreadScheduler ::
  "('b, 'i, 's) service_manager \<Rightarrow> int \<Rightarrow> int \<Rightarrow> int \<Rightarrow> 's \<Rightarrow> fault + (int \<times> 's)" where
  "native_setThreadScheduler sm jtid jpolicy jpri s =
     (case getVRService sm of
        None \<Rightarrow> Inr (-1, s)
      | Some vr \<Rightarrow> vt_setThreadScheduler vr jtid jpolicy jpri s)"

section \<open>Registration\<close>

datatype native_fn = FnInit | FnSetup | FnGetSystemNode | FnSetSystemNode | FnSystemCall |
  FnGetProperty | FnSetProperty | FnSetThreadScheduler

definition gMethods :: "(string \<times> string \<times> native_fn) list" where
  "gMethods =
    [(''native_init'', ''()V'', FnInit),
     (''native_setup'', ''(Ljava/lang/Object;)V'', FnSetup),
     (''native_getSystemNode'', ''(Ljava/lang/String;)Ljava/lang/String;'', FnGetSystemNode),
     (''native_setSystemNode'', ''(Ljava/lang/String;Ljava/lang/String;)I'', FnSetSystemNode),
     (''native_systemCall'', ''(Ljava/lang/String;)Ljava/lang/String;'', FnSystemCall),
     (''native_getProperty'', ''(Ljava/lang/String;)Ljava/lang/String;'', FnGetProperty),
     (''native_setProperty'', ''(Ljava/lang/String;Ljava/lang/String;)I'', FnSetProperty),
     (''native_setThreadScheduler'', ''(III)I'', FnSetThreadScheduler)]"

definition JNI_ERR :: int where "JNI_ERR = -1"

definition JNI_VERSION_1_6 :: int where "JNI_VERSION_1_6 = 0x00010006"

text \<open>The result and the methods registered, with the class they are registered on.\<close>

definition JNI_OnLoad ::
  "('j, 'c, 'm, 'ob) jni option \<Rightarrow> int \<times> ('c \<times> (string \<times> string \<times> native_fn) list) option" where
  "JNI_OnLoad getEnv =
     (case getEnv of
        None \<Rightarrow> (JNI_ERR, None)
      | Some env \<Rightarrow>
          (case FindClass env kVRManagerClass of
             None \<Rightarrow> (JNI_ERR, None)
           | Some clazz \<Rightarrow> (JNI_VERSION_1_6, Some (clazz, gMethods))))"

text \<open>The native methods \<open>VRManager.java\<close> declares, and the descriptor of a Java method type.\<close>

datatype jtype = JVoid | JInt | JString | JObject

fun descriptor :: "jtype \<Rightarrow> string" where
  "descriptor JVoid = ''V''"
| "descriptor JInt = ''I''"
| "descriptor JString = ''Ljava/lang/String;''"
| "descriptor JObject = ''Ljava/lang/Object;''"

definition method_descriptor :: "jtype list \<Rightarrow> jtype \<Rightarrow> string" where
  "method_descriptor args res = ''('' @ concat (map descriptor args) @ '')'' @ descriptor res"

definition VRManager_natives :: "(string \<times> jtype list \<times> jtype) list" where
  "VRManager_natives =
    [(''native_init'', [], JVoid),
     (''native_setup'', [JObject], JVoid),
     (''native_getSystemNode'', [JString], JString),
     (''native_setSystemNode'', [JString, JString], JInt),
     (''native_systemCall'', [JString], JString),
     (''native_getProperty'', [JString], JString),
     (''native_setProperty'', [JString, JString], JInt),
     (''native_setThreadScheduler'', [JInt, JInt, JInt], JInt)]"

definition postEventFromNative :: "string \<times> jtype list \<times> jtype" where
  "postEventFromNative = (''postEventFromNative'', [JObject, JInt, JInt, JInt, JString], JVoid)"

section \<open>The receiver of events behind a stub\<close>

definition java_receiver ::
  "('j, 'c, 'm, 'ob) jni option \<Rightarrow> ('c, 'm, 'ob) jvr_post_event \<Rightarrow> ('j, 'c, 'm, 'ob) jni_call list post_op" where
  "java_receiver getJNIEnv this what arg1 arg2 str s =
     fbind (JVRPostEvent_post getJNIEnv this what arg1 arg2 str) (\<lambda>(ret, calls). Inr (ret, s @ calls))"

definition demo_jni :: "(string, nat, nat, nat) jni" where
  "demo_jni = \<lparr>GetStringUTFChars = (\<lambda>j. Inr j), NewStringUTF = Some, GetObjectClass = (\<lambda>t. Some 1),
     GetStaticMethodID = (\<lambda>c n d. if c = 1 \<and> n = ''postEventFromNative'' then Some 9 else None),
     NewGlobalRef_class = Some, NewGlobalRef_object = Some, FindClass = (\<lambda>n. Some 1)\<rparr>"

definition demo_manager :: "(nat, nat, int list) service_manager" where
  "demo_manager = \<lparr>sm_getService = (\<lambda>n. if n = ''vrserver'' then Some 4 else None),
     sm_interface_cast = (\<lambda>b. Some demo_vtable)\<rparr>"

section \<open>Properties\<close>

text \<open>C24: an event posted by the native service through its proxy makes, on the receiver that the
  set-up created for \<open>VRManager\<close>, exactly one call of \<open>postEventFromNative\<close>, with the weak
  reference, the three numbers and the text of the event (\<open>null\<close> without one), and the Java
  string made for it is released.\<close>

theorem event_reaches_java:
  assumes "fifo L content" and "GetObjectClass env thiz = Some clazz"
    and "GetStaticMethodID env clazz ''postEventFromNative''
      (method_descriptor [JObject, JInt, JInt, JInt, JString] JVoid) = Some mid"
    and "NewGlobalRef_class env clazz = Some gclazz"
    and "NewStringUTF env (case str of Some t \<Rightarrow> cstr t | None \<Rightarrow> ''null'') = Some j"
  shows "Bp_post L (posted_to L (java_receiver (Some env) (fst (new_JVRPostEvent env thiz weak)))) what arg1 arg2 str s =
    Inr (0, s @ [JNewString (case str of Some t \<Rightarrow> cstr t | None \<Rightarrow> ''null''),
      JCallStaticVoid gclazz mid (NewGlobalRef_object env weak) what arg1 arg2 (Some j), JDeleteLocalString j])"
proof -
  let ?ev = "fst (new_JVRPostEvent env thiz weak)"
  let ?text = "case str of Some t \<Rightarrow> cstr t | None \<Rightarrow> ''null''"
  have m: "GetStaticMethodID env clazz ''postEventFromNative'' ''(Ljava/lang/Object;IIILjava/lang/String;)V'' = Some mid"
    using assms(3) by (simp add: method_descriptor_def)
  have ev: "?ev = \<lparr>mClass = Some gclazz, mObject = NewGlobalRef_object env weak, mPostMehodID = Some mid\<rparr>"
    unfolding new_JVRPostEvent_def Let_def assms(2) option.case m by (simp add: assms(4))
  show ?thesis
    unfolding post_trip [OF assms(1)] ev java_receiver_def JVRPostEvent_post_def using assms(5) by (simp add: Let_def)
qed

theorem event_reaches_java_witness:
  "Bp_post (list_binder :: (nat item list, nat, nat, (string, nat, nat, nat) jni_call list) binder_lib)
     (posted_to list_binder (java_receiver (Some demo_jni) (fst (new_JVRPostEvent demo_jni 5 6)))) 1 2 3 None [] =
   Inr (0, [JNewString ''null'', JCallStaticVoid 1 9 (Some 6) 1 2 3 (Some ''null''), JDeleteLocalString ''null''])"
proof -
  have c: "GetObjectClass demo_jni 5 = Some 1" and g: "NewGlobalRef_class demo_jni 1 = Some 1"
    and j: "NewStringUTF demo_jni (case None of Some t \<Rightarrow> cstr t | None \<Rightarrow> ''null'') = Some ''null''"
    and m: "GetStaticMethodID demo_jni 1 ''postEventFromNative''
      (method_descriptor [JObject, JInt, JInt, JInt, JString] JVoid) = Some 9"
    and w: "NewGlobalRef_object demo_jni 6 = Some 6"
    by (simp_all add: demo_jni_def)
  show ?thesis
    using event_reaches_java [OF fifo_list_binder c m g j, of 6 1 2 3 "[]"] w by simp
qed

text \<open>When the class or the method of the callback cannot be found, the set-up still hands the
  object to the service, and the first event with a text posted to it uses a null class: the
  result is undefined.\<close>

lemma unusable_reporter:
  assumes "GetObjectClass env thiz = None \<or> (\<exists>clazz. GetObjectClass env thiz = Some clazz \<and>
      (\<forall>name sig. GetStaticMethodID env clazz name sig = None))"
    and "getVRService sm = Some vr"
  shows "native_setup env sm thiz weak s =
      fbind (vt_setPostEventObj vr (Some (fst (new_JVRPostEvent env thiz weak))) s) (\<lambda>(r, s'). Inr (s', [])) \<and>
    JVRPostEvent_post getEnv (fst (new_JVRPostEvent env thiz weak)) what a b (Some t) = Inl NullPointer"
  using assms
  by (auto simp: native_setup_def new_JVRPostEvent_def JVRPostEvent_post_def split: option.splits)

text \<open>A null string argument never reaches the code's check for it in the way the check means:
  where the VM forbids null in \<open>GetStringUTFChars\<close> every method is undefined before the check;
  where the VM answers null, the node and property methods return an empty string or -1 without
  calling the service, while \<open>native_systemCall\<close>, which has no check, calls it with an empty
  command.\<close>

lemma null_string_argument:
  "(GetStringUTFChars env None = Inl e \<longrightarrow>
      native_getSystemNode env sm None s = Inl e \<and> native_systemCall env sm None s = Inl e \<and>
      native_getProperty env sm None s = Inl e \<and> native_setSystemNode env sm None jvalue s = Inl e \<and>
      native_setProperty env sm None jvalue s = Inl e) \<and>
   (GetStringUTFChars env None = Inr None \<longrightarrow>
      native_getSystemNode env sm None s = Inr (NewStringUTF env '''', s, [JNewString '''']) \<and>
      native_getProperty env sm None s = Inr (NewStringUTF env '''', s, [JNewString '''']) \<and>
      native_setSystemNode env sm None None s = Inr (-1, s, []) \<and>
      native_setProperty env sm None None s = Inr (-1, s, []) \<and>
      (\<forall>vr. getVRService sm = Some vr \<longrightarrow> native_systemCall env sm None s =
        fbind (vt_systemCall vr '''' '''' s) (\<lambda>(r, out, s'). return_string env out s' [])))"
proof -
  have "cstr '''' = ''''" by (simp add: cstr_def)
  then show ?thesis
    by (simp add: native_getSystemNode_def native_systemCall_def native_getProperty_def
        native_setSystemNode_def native_setProperty_def JStringToString8_def return_string_def)
qed

text \<open>Loading the library registers on \<open>VRManager\<close>, once each, exactly the native methods the
  class declares, under the descriptors of their Java types; when the class is missing or the
  VM is too old nothing is registered and an error is returned.\<close>

lemma natives_match_java:
  "JNI_OnLoad getEnv =
     (case getEnv of None \<Rightarrow> (-1, None)
      | Some env \<Rightarrow> (case FindClass env ''com/android/VRAdmin/VRManager'' of None \<Rightarrow> (-1, None)
          | Some clazz \<Rightarrow> (0x00010006, Some (clazz, gMethods)))) \<and>
   map (\<lambda>(name, sig, f). (name, sig)) gMethods =
     map (\<lambda>(name, args, res). (name, method_descriptor args res)) VRManager_natives \<and>
   distinct (map fst gMethods) \<and> distinct (map (snd \<circ> snd) gMethods)"
  by (simp add: JNI_OnLoad_def JNI_ERR_def JNI_VERSION_1_6_def kVRManagerClass_def gMethods_def
      VRManager_natives_def method_descriptor_def split: option.split)

section \<open>Calling a registered method\<close>

definition JNI_OnUnload :: "'s \<Rightarrow> 's" where
  "JNI_OnUnload s = s"

text \<open>
  The VM calls a registered function on argument values. \<open>None\<close> stands for the type confusion
  of a function called with values it does not expect: the VM does not check them, it trusts
  the descriptor the function was registered under.
\<close>

datatype ('j, 'ob) jvalue =
    VVoid
  | VInt int
  | VString "'j option"
  | VObject 'ob

fun has_jtype :: "('j, 'ob) jvalue \<Rightarrow> jtype \<Rightarrow> bool" where
  "has_jtype VVoid t \<longleftrightarrow> t = JVoid"
| "has_jtype (VInt i) t \<longleftrightarrow> t = JInt"
| "has_jtype (VString j) t \<longleftrightarrow> t = JString"
| "has_jtype (VObject ob) t \<longleftrightarrow> t = JObject"

fun native_fn_type :: "native_fn \<Rightarrow> jtype list \<times> jtype" where
  "native_fn_type FnInit = ([], JVoid)"
| "native_fn_type FnSetup = ([JObject], JVoid)"
| "native_fn_type FnGetSystemNode = ([JString], JString)"
| "native_fn_type FnSetSystemNode = ([JString, JString], JInt)"
| "native_fn_type FnSystemCall = ([JString], JString)"
| "native_fn_type FnGetProperty = ([JString], JString)"
| "native_fn_type FnSetProperty = ([JString, JString], JInt)"
| "native_fn_type FnSetThreadScheduler = ([JInt, JInt, JInt], JInt)"

type_synonym ('j, 'c, 'm, 'ob, 's) native_result =
  "fault + (('j, 'ob) jvalue \<times> 's \<times> ('j, 'c, 'm, 'ob) jni_call list)"

definition with_value ::
  "('a \<Rightarrow> ('j, 'ob) jvalue) \<Rightarrow> fault + ('a \<times> 's \<times> ('j, 'c, 'm, 'ob) jni_call list) \<Rightarrow>
     ('j, 'c, 'm, 'ob, 's) native_result" where
  "with_value wrap r = fbind r (\<lambda>(v, s, calls). Inr (wrap v, s, calls))"

definition invoke_native ::
  "('j, 'c, 'm, 'ob) jni \<Rightarrow> ('b, ('c, 'm, 'ob) jvr_post_event, 's) service_manager \<Rightarrow> 'ob \<Rightarrow>
     native_fn \<Rightarrow> ('j, 'ob) jvalue list \<Rightarrow> 's \<Rightarrow> ('j, 'c, 'm, 'ob, 's) native_result option" where
  "invoke_native env sm thiz f vs s =
     (case f of
        FnInit \<Rightarrow> (case vs of [] \<Rightarrow> Some (Inr (VVoid, native_init s, [])) | _ \<Rightarrow> None)
      | FnSetup \<Rightarrow> (case vs of
            [VObject weak] \<Rightarrow>
              Some (fbind (native_setup env sm thiz weak s) (\<lambda>(s', calls). Inr (VVoid, s', calls)))
          | _ \<Rightarrow> None)
      | FnGetSystemNode \<Rightarrow> (case vs of
            [VString p] \<Rightarrow> Some (with_value VString (native_getSystemNode env sm p s)) | _ \<Rightarrow> None)
      | FnSetSystemNode \<Rightarrow> (case vs of
            [VString p, VString v] \<Rightarrow> Some (with_value VInt (native_setSystemNode env sm p v s))
          | _ \<Rightarrow> None)
      | FnSystemCall \<Rightarrow> (case vs of
            [VString c] \<Rightarrow> Some (with_value VString (native_systemCall env sm c s)) | _ \<Rightarrow> None)
      | FnGetProperty \<Rightarrow> (case vs of
            [VString k] \<Rightarrow> Some (with_value VString (native_getProperty env sm k s)) | _ \<Rightarrow> None)
      | FnSetProperty \<Rightarrow> (case vs of
            [VString k, VString v] \<Rightarrow> Some (with_value VInt (native_setProperty env sm k v s))
          | _ \<Rightarrow> None)
      | FnSetThreadScheduler \<Rightarrow> (case vs of
            [VInt t, VInt p, VInt q] \<Rightarrow>
              Some (fbind (native_setThreadScheduler sm t p q s) (\<lambda>(r, s'). Inr (VInt r, s', [])))
          | _ \<Rightarrow> None))"

lemma has_jtype_iff:
  "has_jtype v JVoid \<longleftrightarrow> v = VVoid" "has_jtype v JInt \<longleftrightarrow> (\<exists>i. v = VInt i)"
  "has_jtype v JString \<longleftrightarrow> (\<exists>j. v = VString j)" "has_jtype v JObject \<longleftrightarrow> (\<exists>ob. v = VObject ob)"
  by (cases v; simp)+

definition no_manager :: "(nat, (nat, nat, nat) jvr_post_event, unit) service_manager" where
  "no_manager = \<lparr>sm_getService = (\<lambda>n. None), sm_interface_cast = (\<lambda>b. None)\<rparr>"

text \<open>A function runs on the values of its own type and on no others, and its result is of it.\<close>

lemma invoke_native_Some:
  "invoke_native env sm thiz f vs s \<noteq> None \<longleftrightarrow> list_all2 has_jtype vs (fst (native_fn_type f))"
  by (cases f) (auto simp: invoke_native_def list_all2_Cons2 has_jtype_iff
      split: list.splits jvalue.splits)

lemma invoke_native_result:
  "invoke_native env sm thiz f vs s = Some (Inr (v, s', calls)) \<Longrightarrow>
     has_jtype v (snd (native_fn_type f))"
  by (cases f) (auto simp: invoke_native_def with_value_def fbind_Inr_iff
      split: list.splits jvalue.splits)

lemma gMethods_types:
  "map (\<lambda>(name, sig, f). (name, native_fn_type f)) gMethods = VRManager_natives"
  by (simp add: gMethods_def VRManager_natives_def)

text \<open>C12: type safety of the native interface. After the library is loaded, every native method
  \<open>VRManager\<close> declares is registered exactly once (the table holds one entry of its name, so
  it does not matter whether the VM keeps the first or the last), and no other method is; the
  entry is under the descriptor of its Java type, with a function registered under no other
  name, which runs on exactly the argument values of that type, and whatever it returns is of
  the declared result type. So no call that type checks in Java misreads its arguments.\<close>

theorem natives_type_safe:
  assumes "FindClass env kVRManagerClass = Some clazz"
    and "(name, args, res) \<in> set VRManager_natives"
  shows "\<exists>f. JNI_OnLoad (Some env) = (JNI_VERSION_1_6, Some (clazz, gMethods)) \<and>
    map_of gMethods name = Some (method_descriptor args res, f) \<and>
    filter (\<lambda>(n, sig, g). n = name) gMethods = [(name, method_descriptor args res, f)] \<and>
    filter (\<lambda>(n, sig, g). g = f) gMethods = [(name, method_descriptor args res, f)] \<and>
    fst ` set gMethods = fst ` set VRManager_natives \<and>
    (\<forall>vs s. invoke_native env sm thiz f vs s \<noteq> None \<longleftrightarrow> list_all2 has_jtype vs args) \<and>
    (\<forall>vs s v s' calls. invoke_native env sm thiz f vs s = Some (Inr (v, s', calls)) \<longrightarrow> has_jtype v res)"
proof -
  from assms(2) obtain f where f: "map_of gMethods name = Some (method_descriptor args res, f)"
    and once: "filter (\<lambda>(n, sig, g). n = name) gMethods = [(name, method_descriptor args res, f)]"
      "filter (\<lambda>(n, sig, g). g = f) gMethods = [(name, method_descriptor args res, f)]"
    and t: "native_fn_type f = (args, res)"
    by (auto simp: VRManager_natives_def gMethods_def method_descriptor_def)
  have names: "fst ` set gMethods = fst ` set VRManager_natives"
    by (simp add: VRManager_natives_def gMethods_def)
  have load: "JNI_OnLoad (Some env) = (JNI_VERSION_1_6, Some (clazz, gMethods))"
    by (simp add: JNI_OnLoad_def assms(1))
  have types: "\<forall>vs s. invoke_native env sm thiz f vs s \<noteq> None \<longleftrightarrow> list_all2 has_jtype vs args"
    "\<forall>vs s v s' calls. invoke_native env sm thiz f vs s = Some (Inr (v, s', calls)) \<longrightarrow> has_jtype v res"
    using t invoke_native_Some [of env sm thiz f] invoke_native_result [of env sm thiz f] by auto
  show ?thesis by (intro exI [of _ f] conjI load f once names types)
qed

theorem natives_type_safe_witness:
  "\<exists>f. filter (\<lambda>(n, sig, g). n = ''native_setThreadScheduler'') gMethods =
       [(''native_setThreadScheduler'', ''(III)I'', f)] \<and>
     invoke_native demo_jni no_manager 5 f [VInt 1, VInt 2, VInt 3] () \<noteq> None \<and>
     invoke_native demo_jni no_manager 5 f [VInt 1, VString None, VInt 3] () = None"
proof -
  have c: "FindClass demo_jni kVRManagerClass = Some 1" by (simp add: demo_jni_def)
  have m: "(''native_setThreadScheduler'', [JInt, JInt, JInt], JInt) \<in> set VRManager_natives"
    by (simp add: VRManager_natives_def)
  obtain f where f: "filter (\<lambda>(n, sig, g). n = ''native_setThreadScheduler'') gMethods =
      [(''native_setThreadScheduler'', method_descriptor [JInt, JInt, JInt] JInt, f)]"
    and run: "\<forall>vs (s :: unit). invoke_native demo_jni no_manager 5 f vs s \<noteq> None \<longleftrightarrow>
      list_all2 has_jtype vs [JInt, JInt, JInt]"
    using natives_type_safe [OF c m, of no_manager 5] by (elim exE conjE) (rule that)
  have d: "method_descriptor [JInt, JInt, JInt] JInt = ''(III)I''" by (simp add: method_descriptor_def)
  show ?thesis
    using f run [rule_format, of "[VInt 1, VInt 2, VInt 3]" "()"]
      run [rule_format, of "[VInt 1, VString None, VInt 3]" "()"]
    unfolding d by (intro exI [of _ f]) simp
qed

end
