(* ===== verification/NativeStack.thy ===== *)
theory NativeStack
  imports JniBridge
begin

text \<open>
  The path of a call from Java: the JNI method, the proxy, the stub and the native service. The
  object in the service manager is the proxy of a stub whose virtual functions are those of
  \<open>VRNativeService\<close>; its state is the system calls made so far and the service object.
\<close>

type_synonym 'i svc_state = "os_call list \<times> 'i vrservice"

text \<open>The virtual functions of \<open>VRNativeService\<close>.\<close>

definition native_vtable :: "os \<Rightarrow> ('i, 'i svc_state) vr_vtable" where
  "native_vtable os =
     \<lparr>vt_getSystemNode = (\<lambda>path value (calls, svc).
        fbind (getSystemNode os path value) (\<lambda>(r, v, cs). Inr (r, v, (calls @ cs, svc)))),
      vt_setSystemNode = (\<lambda>path value (calls, svc).
        (case setSystemNode os path value of (r, cs) \<Rightarrow> Inr (r, (calls @ cs, svc)))),
      vt_systemCall = (\<lambda>cmd result (calls, svc).
        fbind (systemCall os cmd result) (\<lambda>(r, v, cs). Inr (r, v, (calls @ cs, svc)))),
      vt_getProperty = (\<lambda>key value (calls, svc).
        (case getProperty os key value of (r, v, cs) \<Rightarrow> Inr (r, v, (calls @ cs, svc)))),
      vt_setProperty = (\<lambda>key value (calls, svc).
        (case setProperty os key value of (r, cs) \<Rightarrow> Inr (r, (calls @ cs, svc)))),
      vt_setThreadScheduler = (\<lambda>tid policy pri (calls, svc).
        (case setThreadScheduler os tid policy pri of (r, cs) \<Rightarrow> Inr (r, (calls @ cs, svc)))),
      vt_setPostEventObj = (\<lambda>ob (calls, svc).
        (case setPostEventObj ob svc of (r, svc') \<Rightarrow> Inr (r, (calls, svc'))))\<rparr>"

text \<open>The service is registered and reachable through a proxy.\<close>

definition reachable_service ::
  "('p, 'b, 'i, 'i svc_state) binder_lib \<Rightarrow> nat list \<Rightarrow> os \<Rightarrow> ('b, 'i, 'i svc_state) service_manager \<Rightarrow> bool" where
  "reachable_service L ord os sm \<longleftrightarrow>
     getVRService sm = Some (bp_vtable L (served_by L ord (native_vtable os)))"

lemma stack_calls:
  assumes "fifo L content"
  shows "vt_getSystemNode (bp_vtable L (served_by L ord vt)) = (\<lambda>a v s. vt_getSystemNode vt a '''' s)"
    and "vt_setSystemNode (bp_vtable L (served_by L ord vt)) = vt_setSystemNode vt"
    and "vt_systemCall (bp_vtable L (served_by L ord vt)) = (\<lambda>a v s. vt_systemCall vt a '''' s)"
    and "vt_getProperty (bp_vtable L (served_by L ord vt)) = (\<lambda>a v s. vt_getProperty vt a '''' s)"
    and "vt_setProperty (bp_vtable L (served_by L ord vt)) = vt_setProperty vt"
    and "vt_setPostEventObj (bp_vtable L (served_by L ord vt)) ob s =
      vt_setPostEventObj vt (interface_cast L (asBinder L ob)) s"
  by (intro ext | simp add: bp_vtable_def call_get_node [OF assms] call_set_node [OF assms]
      call_system [OF assms] call_get_property [OF assms] call_set_property [OF assms] call_post_obj [OF assms])+

definition chars :: "string option \<Rightarrow> ('j, 'c, 'm, 'ob) jni_call list" where
  "chars s = (if s = None then [] else [JGetChars, JReleaseChars])"

lemma JString_some:
  "GetStringUTFChars env jstr = Inr (Some t) \<Longrightarrow> JStringToString8 env jstr = Inr (cstr t, [JGetChars, JReleaseChars])"
  by (simp add: JStringToString8_def)

text \<open>What each method does over the whole stack.\<close>

lemma stack_get_node:
  assumes "fifo L content" and "reachable_service L ord os sm"
    and "GetStringUTFChars env (Some j) = Inr (Some path)"
  shows "native_getSystemNode env sm (Some j) (cs, svc) =
    fbind (getSystemNode os (cstr path) '''') (\<lambda>(r, v, calls).
      Inr (NewStringUTF env (cstr v), (cs @ calls, svc), [JGetChars, JReleaseChars, JNewString (cstr v)]))"
  using assms(2)
  by (cases "getSystemNode os (cstr path) ''''")
    (auto simp: native_getSystemNode_def JString_some [OF assms(3)] reachable_service_def
      stack_calls [OF assms(1)] native_vtable_def return_string_def)

lemma stack_set_node:
  assumes "fifo L content" and "reachable_service L ord os sm"
    and "GetStringUTFChars env (Some j) = Inr (Some path)" and "GetStringUTFChars env (Some k) = Inr (Some value)"
  shows "native_setSystemNode env sm (Some j) (Some k) (cs, svc) =
    (case setSystemNode os (cstr path) (cstr value) of (r, calls) \<Rightarrow>
      Inr (r, (cs @ calls, svc), [JGetChars, JReleaseChars, JGetChars, JReleaseChars]))"
  using assms(2)
  by (auto simp: native_setSystemNode_def JString_some [OF assms(3)] JString_some [OF assms(4)]
      reachable_service_def stack_calls [OF assms(1)] native_vtable_def split: prod.splits)

lemma stack_system_call:
  assumes "fifo L content" and "reachable_service L ord os sm"
    and "GetStringUTFChars env (Some j) = Inr (Some cmd)"
  shows "native_systemCall env sm (Some j) (cs, svc) =
    fbind (systemCall os (cstr cmd) '''') (\<lambda>(r, v, calls).
      Inr (NewStringUTF env (cstr v), (cs @ calls, svc), [JGetChars, JReleaseChars, JNewString (cstr v)]))"
  using assms(2)
  by (cases "systemCall os (cstr cmd) ''''")
    (auto simp: native_systemCall_def JString_some [OF assms(3)] reachable_service_def
      stack_calls [OF assms(1)] native_vtable_def return_string_def)

lemma stack_set_property:
  assumes "fifo L content" and "reachable_service L ord os sm"
    and "GetStringUTFChars env (Some j) = Inr (Some key)" and "GetStringUTFChars env (Some k) = Inr (Some value)"
  shows "native_setProperty env sm (Some j) (Some k) (cs, svc) =
    (case setProperty os (cstr key) (cstr value) of (r, calls) \<Rightarrow>
      Inr (r, (cs @ calls, svc), [JGetChars, JReleaseChars, JGetChars, JReleaseChars]))"
  using assms(2)
  by (auto simp: native_setProperty_def JString_some [OF assms(3)] JString_some [OF assms(4)]
      reachable_service_def stack_calls [OF assms(1)] native_vtable_def split: prod.splits)

lemma stack_get_property:
  assumes "fifo L content" and "reachable_service L ord os sm"
    and "GetStringUTFChars env (Some j) = Inr (Some key)"
  shows "native_getProperty env sm (Some j) (cs, svc) =
    (case getProperty os (cstr key) '''' of (r, v, calls) \<Rightarrow>
      Inr (NewStringUTF env (cstr v), (cs @ calls, svc), [JGetChars, JReleaseChars, JNewString (cstr v)]))"
  using assms(2)
  by (auto simp: native_getProperty_def JString_some [OF assms(3)] reachable_service_def
      stack_calls [OF assms(1)] native_vtable_def return_string_def split: prod.splits)

lemma cstr_cstr [simp]: "cstr (cstr s) = cstr s"
  by (rule cstr_no_nul) simp

section \<open>Which system calls Java can cause\<close>

fun permitted :: "os_call \<Rightarrow> bool" where
  "permitted (SysOpen q f fd) = CheckAccessNodePerm (Some q)"
| "permitted (SysPopen c) = CheckSyscallPerm (Some c)"
| "permitted _ = True"

lemma permitted_nodes:
  "(\<And>q f fd. SysOpen q f fd \<in> set calls \<Longrightarrow> white_listed q) \<Longrightarrow>
   (\<And>c. SysPopen c \<notin> set calls) \<Longrightarrow> \<forall>x \<in> set calls. permitted x"
proof
  fix x assume *: "\<And>q f fd. SysOpen q f fd \<in> set calls \<Longrightarrow> white_listed q"
    "\<And>c. SysPopen c \<notin> set calls" and x: "x \<in> set calls"
  show "permitted x"
    using *(1) *(2) x by (cases x) (auto simp: CheckAccessNodePerm_iff)
qed

lemma node_protocol_no_popen: "node_protocol ok p calls \<Longrightarrow> SysPopen c \<notin> set calls"
  by (auto simp: node_protocol_def elim: on_node.elims)

lemma get_permitted: "getSystemNode os path value = Inr (r, v, calls) \<Longrightarrow> \<forall>x \<in> set calls. permitted x"
proof -
  assume "getSystemNode os path value = Inr (r, v, calls)"
  then have g: "get_runs (os, value) path r calls" by (simp add: get_runs_def)
  show ?thesis
    using node_get.only_allowed [OF g] node_protocol_no_popen [OF node_get.protocol [OF g]]
    by (intro permitted_nodes) blast+
qed

lemma set_permitted: "setSystemNode os path value = (r, calls) \<Longrightarrow> \<forall>x \<in> set calls. permitted x"
proof -
  assume "setSystemNode os path value = (r, calls)"
  then have s: "set_runs (os, value) path r calls" by (simp add: set_runs_def)
  show ?thesis
    using node_set.only_allowed [OF s] node_protocol_no_popen [OF node_set.protocol [OF s]]
    by (intro permitted_nodes) blast+
qed

lemma system_permitted: "systemCall os cmd result = Inr (r, v, calls) \<Longrightarrow> \<forall>x \<in> set calls. permitted x"
  by (auto simp: systemCall_def Let_def fbind_Inr_iff split: if_splits option.splits)

lemma property_permitted:
  "getProperty os key value = (r, v, calls) \<Longrightarrow> \<forall>x \<in> set calls. permitted x"
  "setProperty os key value = (r, calls) \<Longrightarrow> \<forall>x \<in> set calls. permitted x"
  by (auto simp: getProperty_def setProperty_def Let_def split: prod.splits if_splits)

section \<open>Properties\<close>

definition demo_stack :: "(nat, nat, nat svc_state) service_manager" where
  "demo_stack = \<lparr>sm_getService = (\<lambda>n. if n = ''vrserver'' then Some 4 else None),
     sm_interface_cast = (\<lambda>b. Some (bp_vtable list_binder (served_by list_binder [0, 1, 2] (native_vtable demo_os))))\<rparr>"

lemma demo_reachable:
  "reachable_service (list_binder :: (nat item list, nat, nat, nat svc_state) binder_lib) [0, 1, 2] demo_os demo_stack"
  by (simp add: reachable_service_def getVRService_def demo_stack_def SERVER_NAME_def)

text \<open>C10: what a Java caller can make the privileged process do: through the five string methods,
  with any strings and whatever the system answers, the service opens only files the node check
  accepts and runs only commands the command check accepts, and its object is not changed.\<close>

theorem java_calls_permitted:
  assumes "fifo L content" and "reachable_service L ord os sm"
    and "GetStringUTFChars env (Some j) = Inr (Some a)" and "GetStringUTFChars env (Some k) = Inr (Some b)"
    and "(\<exists>r. native_getSystemNode env sm (Some j) (cs, svc) = Inr (r, (cs', svc'), jc)) \<or>
      (\<exists>r. native_setSystemNode env sm (Some j) (Some k) (cs, svc) = Inr (r, (cs', svc'), jc)) \<or>
      (\<exists>r. native_systemCall env sm (Some j) (cs, svc) = Inr (r, (cs', svc'), jc)) \<or>
      (\<exists>r. native_getProperty env sm (Some j) (cs, svc) = Inr (r, (cs', svc'), jc)) \<or>
      (\<exists>r. native_setProperty env sm (Some j) (Some k) (cs, svc) = Inr (r, (cs', svc'), jc))"
  shows "svc' = svc \<and> (\<exists>new. cs' = cs @ new \<and>
    (\<forall>q f fd. SysOpen q f fd \<in> set new \<longrightarrow> CheckAccessNodePerm (Some q)) \<and>
    (\<forall>c. SysPopen c \<in> set new \<longrightarrow> CheckSyscallPerm (Some c)))"
proof -
  note st = stack_get_node [OF assms(1,2,3)] stack_set_node [OF assms(1,2,3,4)]
    stack_system_call [OF assms(1,2,3)] stack_get_property [OF assms(1,2,3)]
    stack_set_property [OF assms(1,2,3,4)]
  have "svc' = svc \<and> (\<exists>new. cs' = cs @ new \<and> (\<forall>x \<in> set new. permitted x))"
    using assms(5) unfolding st
    by (elim disjE exE)
      (auto simp: fbind_Inr_iff split: prod.splits
        dest: get_permitted set_permitted system_permitted property_permitted)
  then show ?thesis by (metis permitted.simps(1,2))
qed

theorem java_calls_permitted_witness:
  "\<exists>jc. native_systemCall demo_jni demo_stack (Some ''dfu-util -l'') ([], new_VRNativeService) =
     Inr (Some ''ok'', ([SysPopen ''dfu-util -l'', SysPclose], new_VRNativeService), jc) \<and>
   CheckSyscallPerm (Some ''dfu-util -l'')"
proof -
  have j: "GetStringUTFChars demo_jni (Some ''dfu-util -l'') = Inr (Some ''dfu-util -l'')"
    by (simp add: demo_jni_def)
  have c: "systemCall demo_os (cstr ''dfu-util -l'') '''' = Inr (2, ''ok'', [SysPopen ''dfu-util -l'', SysPclose])"
    using read_lines_no_nul [of "''ok''" 0 "''''"]
    by (simp add: systemCall_def Let_def demo_os_def INT_MAX_def no_nul_def NUL_def CheckSyscallPerm_iff)
  have n: "native_systemCall demo_jni demo_stack (Some ''dfu-util -l'') ([], new_VRNativeService) =
      Inr (Some ''ok'', ([SysPopen ''dfu-util -l'', SysPclose], new_VRNativeService),
        [JGetChars, JReleaseChars, JNewString ''ok''])"
    using stack_system_call [OF fifo_list_binder demo_reachable j, of "[]" new_VRNativeService] c
    by (simp add: demo_jni_def no_nul_def NUL_def)
  from java_calls_permitted [OF fifo_list_binder demo_reachable j j] n
  have "CheckSyscallPerm (Some ''dfu-util -l'')" by fastforce
  with n show ?thesis by blast
qed

text \<open>C20: reading a white-listed node from Java yields, through JNI, proxy, stub and service, the
  text of the file up to its first NUL byte or its end, with the file closed and the Java
  characters released, provided one of the two comes within the first 128 bytes of the file. A
  file of 128 bytes or more without NUL among the first 128 is undefined behaviour in the service
  (\<open>getSystemNode_overread\<close>).\<close>

theorem java_reads_node:
  assumes "fifo L content" and "reachable_service L ord os sm"
    and "GetStringUTFChars env (Some j) = Inr (Some path)" and "no_nul path"
    and "CheckAccessNodePerm (Some path)" and "0 \<le> os_access os path"
    and "os_open os path O_RDONLY = fd" and "0 \<le> fd"
    and "os_read os fd = ReadBytes bs" and "length bs < 128 \<or> NUL \<in> set (take 128 bs)"
  shows "native_getSystemNode env sm (Some j) (cs, svc) =
    Inr (NewStringUTF env (cstr bs),
      (cs @ [SysAccess path, SysOpen path O_RDONLY fd, SysRead fd 128, SysClose fd], svc),
      [JGetChars, JReleaseChars, JNewString (cstr bs)])"
proof -
  have "read_cstr (read_into (replicate 128 NUL) (take 128 bs)) = Inr (cstr bs)"
    using assms(10) by (auto simp: read_cstr_def read_into_def cstr_append_pad cstr_take_stop)
  then show ?thesis
    using stack_get_node [OF assms(1,2,3), of cs svc] assms(4-9)
    by (simp add: getSystemNode_def Let_def)
qed

theorem java_reads_node_witness:
  "native_getSystemNode demo_jni demo_stack (Some demo_node) ([], new_VRNativeService) =
     Inr (Some ''300000 '', ([SysAccess demo_node, SysOpen demo_node O_RDONLY 5, SysRead 5 128, SysClose 5],
       new_VRNativeService), [JGetChars, JReleaseChars, JNewString ''300000 ''])"
proof -
  have j: "GetStringUTFChars demo_jni (Some demo_node) = Inr (Some demo_node)" by (simp add: demo_jni_def)
  have n: "no_nul demo_node" using no_nul_cstr [of demo_node] by (simp add: demo_node_listed)
  have c: "cstr ''300000 '' = ''300000 ''" by code_simp
  have l: "length ''300000 '' < 128 \<or> NUL \<in> set (take 128 ''300000 '')" by simp
  have os: "0 \<le> os_access demo_os demo_node" "os_open demo_os demo_node O_RDONLY = 5" "(0 :: int) \<le> 5"
    "os_read demo_os 5 = ReadBytes ''300000 ''" by (simp_all add: demo_os_def)
  show ?thesis
    using java_reads_node [OF fifo_list_binder demo_reachable j n demo_node_listed(1) os l, of "[]" new_VRNativeService] c
    by (simp add: demo_jni_def)
qed

text \<open>After \<open>native_setup\<close> the service reports events to the object the call made, as it
  arrives through the binder, and no system call is made.\<close>

lemma setup_registers_reporter:
  assumes "fifo L content" and "reachable_service L ord os sm"
  shows "native_setup env sm thiz weak (cs, svc) =
    Inr ((cs, svc\<lparr>mIPostEvent := interface_cast L (asBinder L (Some (fst (new_JVRPostEvent env thiz weak))))\<rparr>),
      snd (new_JVRPostEvent env thiz weak))"
  using assms(2)
  by (simp add: native_setup_def reachable_service_def stack_calls [OF assms(1)] native_vtable_def
      setPostEventObj_def split_beta)

end
