(* ===== verification/AdminService.thy ===== *)
theory AdminService
  imports NativeStack
begin

text \<open>
  \<open>VRManager.java\<close> and \<open>VRAdminService.java\<close>: the Java singleton around the native methods, and
  the exported Android service through which other applications use it. A Java string reference
  is an option, an unchecked exception of the VM that a null argument causes in native code is
  the fault of the native method. The Android classes are not modelled: whether a monitor's
  process is alive is an argument of the registration.
\<close>

section \<open>VRManager\<close>

text \<open>The instance methods of \<open>VRManager\<close>: each forwards to its native method.\<close>

record 's vr_manager =
  vm_getSystemNode :: "string option \<Rightarrow> 's \<Rightarrow> fault + (string option \<times> 's)"
  vm_setSystemNode :: "string option \<Rightarrow> string option \<Rightarrow> 's \<Rightarrow> fault + (int \<times> 's)"
  vm_systemCall :: "string option \<Rightarrow> 's \<Rightarrow> fault + (string option \<times> 's)"
  vm_getProperty :: "string option \<Rightarrow> 's \<Rightarrow> fault + (string option \<times> 's)"
  vm_setProperty :: "string option \<Rightarrow> string option \<Rightarrow> 's \<Rightarrow> fault + (int \<times> 's)"
  vm_setThreadScheduler :: "int \<Rightarrow> int \<Rightarrow> int \<Rightarrow> 's \<Rightarrow> fault + (int \<times> 's)"

definition drop_refs :: "fault + ('a \<times> 's \<times> 'x) \<Rightarrow> fault + ('a \<times> 's)" where
  "drop_refs r = fbind r (\<lambda>(v, s, calls). Inr (v, s))"

definition VRManager_methods ::
  "(string, 'c, 'm, 'ob) jni \<Rightarrow> ('b, 'i, 's) service_manager \<Rightarrow> 's vr_manager" where
  "VRManager_methods env sm =
     \<lparr>vm_getSystemNode = (\<lambda>path s. drop_refs (native_getSystemNode env sm path s)),
      vm_setSystemNode = (\<lambda>path val s. drop_refs (native_setSystemNode env sm path val s)),
      vm_systemCall = (\<lambda>cmd s. drop_refs (native_systemCall env sm cmd s)),
      vm_getProperty = (\<lambda>key s. drop_refs (native_getProperty env sm key s)),
      vm_setProperty = (\<lambda>key val s. drop_refs (native_setProperty env sm key val s)),
      vm_setThreadScheduler = (\<lambda>tid policy pri s. native_setThreadScheduler sm tid policy pri s)\<rparr>"

text \<open>\<open>getInstance\<close> on the static \<open>mVRMgr\<close>: the first call constructs \<open>obj\<close> and sets it up with a
  weak reference to it.\<close>

definition VRManager_getInstance ::
  "('j, 'c, 'm, 'ob) jni \<Rightarrow> ('b, ('c, 'm, 'ob) jvr_post_event, 's) service_manager \<Rightarrow> 'ob \<Rightarrow> 'ob \<Rightarrow>
     'ob option \<Rightarrow> 's \<Rightarrow> fault + ('ob \<times> 'ob option \<times> 's)" where
  "VRManager_getInstance env sm ob weak mVRMgr s =
     (case mVRMgr of
        Some mgr \<Rightarrow> Inr (mgr, mVRMgr, s)
      | None \<Rightarrow> fbind (native_setup env sm ob weak s) (\<lambda>(s', calls). Inr (ob, Some ob, s')))"

text \<open>\<open>postEventFromNative\<close> dereferences the weak reference and does nothing else.\<close>

definition VRManager_postEventFromNative :: "'ob option \<Rightarrow> fault + unit" where
  "VRManager_postEventFromNative vr = (case vr of None \<Rightarrow> Inl NullPointer | Some weak \<Rightarrow> Inr ())"

section \<open>The operations of the service's stub\<close>

definition VR_GRALLOC_PROPERTY :: string where
  "VR_GRALLOC_PROPERTY = ''vr.gralloc.gfx_ubwc_disable''"

record ('mon, 's) admin =
  mClientCount :: i32
  mCbs :: "'mon list"
  mVRService :: "'s vr_manager option"

definition admin_getSystemNode ::
  "('mon, 's) admin \<Rightarrow> string option \<Rightarrow> 's \<Rightarrow> fault + (string option \<times> 's)" where
  "admin_getSystemNode adm pathname s =
     (case (mVRService adm, pathname) of
        (Some vm, Some p) \<Rightarrow> vm_getSystemNode vm (Some p) s
      | _ \<Rightarrow> Inr (Some '''', s))"

definition admin_setSystemNode ::
  "('mon, 's) admin \<Rightarrow> string option \<Rightarrow> string option \<Rightarrow> 's \<Rightarrow> fault + (int \<times> 's)" where
  "admin_setSystemNode adm pathname freq s =
     (case (mVRService adm, pathname) of
        (Some vm, Some p) \<Rightarrow> vm_setSystemNode vm (Some p) freq s
      | _ \<Rightarrow> Inr (-1, s))"

definition admin_systemCall ::
  "('mon, 's) admin \<Rightarrow> string option \<Rightarrow> 's \<Rightarrow> fault + (string option \<times> 's)" where
  "admin_systemCall adm cmd s =
     (case (mVRService adm, cmd) of
        (Some vm, Some c) \<Rightarrow> vm_systemCall vm (Some c) s
      | _ \<Rightarrow> Inr (Some ''-1'', s))"

definition admin_getProperty ::
  "('mon, 's) admin \<Rightarrow> string option \<Rightarrow> 's \<Rightarrow> fault + (string option \<times> 's)" where
  "admin_getProperty adm key s =
     (case (mVRService adm, key) of
        (Some vm, Some k) \<Rightarrow> vm_getProperty vm (Some k) s
      | _ \<Rightarrow> Inr (Some '''', s))"

definition admin_setProperty ::
  "('mon, 's) admin \<Rightarrow> string option \<Rightarrow> string option \<Rightarrow> 's \<Rightarrow> fault + (int \<times> 's)" where
  "admin_setProperty adm key val s =
     (case (mVRService adm, key) of
        (Some vm, Some k) \<Rightarrow> vm_setProperty vm (Some k) val s
      | _ \<Rightarrow> Inr (-1, s))"

definition admin_setThreadScheduler ::
  "('mon, 's) admin \<Rightarrow> int \<Rightarrow> int \<Rightarrow> int \<Rightarrow> 's \<Rightarrow> fault + (int \<times> 's)" where
  "admin_setThreadScheduler adm tid policy pri s =
     (case mVRService adm of
        None \<Rightarrow> Inr (-1, s)
      | Some vm \<Rightarrow> vm_setThreadScheduler vm tid policy pri s)"

text \<open>The two writes of \<open>activityEnter\<close>, \<open>activityLeave\<close> and the last monitor's death; their
  results are ignored.\<close>

definition write_status :: "('mon, 's) admin \<Rightarrow> string \<Rightarrow> 's \<Rightarrow> fault + 's" where
  "write_status adm val s =
     fbind (admin_setProperty adm (Some VR_GRALLOC_PROPERTY) (Some val) s) (\<lambda>(r, s1).
     fbind (admin_setSystemNode adm (Some MSM_CMD_AUTOREFRESH) (Some val) s1) (\<lambda>(r', s2). Inr s2))"

definition activityEnter :: "('mon, 's) admin \<Rightarrow> 's \<Rightarrow> fault + (int \<times> 's)" where
  "activityEnter adm s = fbind (write_status adm ''1'' s) (\<lambda>s'. Inr (0, s'))"

definition activityLeave :: "('mon, 's) admin \<Rightarrow> 's \<Rightarrow> fault + (int \<times> 's)" where
  "activityLeave adm s = fbind (write_status adm ''0'' s) (\<lambda>s'. Inr (0, s'))"

text \<open>A Java string in a concatenation: a null reference becomes the word.\<close>

definition jconcat :: "string option \<Rightarrow> string" where
  "jconcat s = (case s of None \<Rightarrow> ''null'' | Some t \<Rightarrow> t)"

definition getBoardMode ::
  "('mon, 's) admin \<Rightarrow> string option \<Rightarrow> string option \<Rightarrow> 's \<Rightarrow> fault + (string option \<times> 's)" where
  "getBoardMode adm vid pid s =
     admin_systemCall adm (Some (''dfu-util -U /xxx'' @ ''-d '' @ jconcat vid @ '':'' @ jconcat pid)) s"

definition download_command :: "string option \<Rightarrow> string option \<Rightarrow> string option \<Rightarrow> string" where
  "download_command dfuFilePath vid pid =
     ''dfu-util -v -a 0 -s :mass-erase:force'' @ '' -d '' @ jconcat vid @ '':'' @ jconcat pid @
     '' -D '' @ jconcat dfuFilePath @ '' 2>&1''"

text \<open>
  The callbacks for the progress of a download are kept in Android's \<open>RemoteCallbackList\<close>, whose
  two operations are arguments. The last operation of the stub only logs.
\<close>

definition registerCallback :: "('cb \<Rightarrow> 'cbs \<Rightarrow> 'cbs) \<Rightarrow> 'cb option \<Rightarrow> 'cbs \<Rightarrow> 'cbs" where
  "registerCallback register cb mCallbacks =
     (case cb of None \<Rightarrow> mCallbacks | Some c \<Rightarrow> register c mCallbacks)"

definition unregisterCallback :: "('cb \<Rightarrow> 'cbs \<Rightarrow> 'cbs) \<Rightarrow> 'cb option \<Rightarrow> 'cbs \<Rightarrow> 'cbs" where
  "unregisterCallback unregister cb mCallbacks =
     (case cb of None \<Rightarrow> mCallbacks | Some c \<Rightarrow> unregister c mCallbacks)"

definition reportApplicationInVR :: "string option \<Rightarrow> bool \<Rightarrow> 's \<Rightarrow> 's" where
  "reportApplicationInVR pkg activeInVR s = s"

section \<open>Downloads\<close>

text \<open>
  \<open>startDownLoad\<close> as one Binder thread executes it: the test of the flag, its setting (with the
  start of the thread that listens for progress), the command, the clearing. The flag is a plain
  field without a lock, so the steps of two threads interleave.
\<close>

datatype dl_pc =
    DlCheck
  | DlSet
  | DlCall
  | DlClear "string option"
  | DlReturned "string option"

record 's dl_state =
  bRunning :: bool
  dl_listeners :: nat
  dl_native :: 's

definition dl_step ::
  "('mon, 's) admin \<Rightarrow> string \<Rightarrow> dl_pc \<Rightarrow> 's dl_state \<Rightarrow> fault + (dl_pc \<times> 's dl_state)" where
  "dl_step adm cmd pc d =
     (case pc of
        DlCheck \<Rightarrow> Inr (if bRunning d then DlReturned (Some ''-1'') else DlSet, d)
      | DlSet \<Rightarrow> Inr (DlCall, d\<lparr>bRunning := True, dl_listeners := Suc (dl_listeners d)\<rparr>)
      | DlCall \<Rightarrow> fbind (admin_systemCall adm (Some cmd) (dl_native d)) (\<lambda>(result, s).
          Inr (DlClear result, d\<lparr>dl_native := s\<rparr>))
      | DlClear result \<Rightarrow> Inr (DlReturned result, d\<lparr>bRunning := False\<rparr>)
      | DlReturned result \<Rightarrow> Inr (DlReturned result, d))"

text \<open>One call that no other interrupts.\<close>

definition startDownLoad ::
  "('mon, 's) admin \<Rightarrow> string option \<Rightarrow> string option \<Rightarrow> string option \<Rightarrow> 's dl_state \<Rightarrow>
     fault + (dl_pc \<times> 's dl_state)" where
  "startDownLoad adm dfuFilePath vid pid d =
     (let go = (\<lambda>(pc, d'). dl_step adm (download_command dfuFilePath vid pid) pc d')
      in fbind (go (DlCheck, d)) (\<lambda>x. fbind (go x) (\<lambda>x. fbind (go x) go)))"

text \<open>
  Threads under a schedule: each thread has an argument and a place, the schedule names the
  thread of each step, and the state is shared.
\<close>

fun interleave ::
  "('a \<Rightarrow> 'p \<Rightarrow> 's \<Rightarrow> fault + ('p \<times> 's)) \<Rightarrow> nat list \<Rightarrow> ('a \<times> 'p) list \<Rightarrow> 's \<Rightarrow>
     fault + (('a \<times> 'p) list \<times> 's)" where
  "interleave step [] ts s = Inr (ts, s)"
| "interleave step (i # is) ts s =
     fbind (step (fst (ts ! i)) (snd (ts ! i)) s) (\<lambda>(pc, s').
       interleave step is (ts[i := (fst (ts ! i), pc)]) s')"

lemma startDownLoad_busy:
  "bRunning d \<Longrightarrow> startDownLoad adm path vid pid d = Inr (DlReturned (Some ''-1''), d)"
  by (simp add: startDownLoad_def dl_step_def)

lemma startDownLoad_idle:
  "\<not> bRunning d \<Longrightarrow> startDownLoad adm path vid pid d =
     fbind (admin_systemCall adm (Some (download_command path vid pid)) (dl_native d)) (\<lambda>(result, s).
       Inr (DlReturned result, \<lparr>bRunning = False, dl_listeners = Suc (dl_listeners d), dl_native = s\<rparr>))"
  by (cases "admin_systemCall adm (Some (download_command path vid pid)) (dl_native d)")
    (auto simp: startDownLoad_def dl_step_def split: prod.splits)

text \<open>Two calls whose tests both come before either sets the flag run both commands.\<close>

lemma downloads_overlap:
  assumes "\<not> bRunning d" and "admin_systemCall adm (Some c1) (dl_native d) = Inr (r1, s1)"
    and "admin_systemCall adm (Some c2) s1 = Inr (r2, s2)"
  shows "interleave (dl_step adm) [0, 1, 0, 1, 0, 1, 0, 1] [(c1, DlCheck), (c2, DlCheck)] d =
    Inr ([(c1, DlReturned r1), (c2, DlReturned r2)],
      \<lparr>bRunning = False, dl_listeners = dl_listeners d + 2, dl_native = s2\<rparr>)"
  using assms by (simp add: dl_step_def)

section \<open>Monitors\<close>

text \<open>
  \<open>registerMonitor\<close>, under the lock of the stub: the exception of \<open>linkToDeath\<close> for a monitor
  whose process is gone leaves after the count and the list have changed. The result says
  whether it was thrown and which monitor is linked. \<open>binderDied\<close> is the recipient of a linked
  monitor; it runs without the lock, and here as one step.
\<close>

definition registerMonitor ::
  "bool \<Rightarrow> 'mon option \<Rightarrow> ('mon, 's) admin \<Rightarrow> bool \<times> 'mon option \<times> ('mon, 's) admin" where
  "registerMonitor alive monitor adm =
     (case monitor of
        None \<Rightarrow> (False, None, adm)
      | Some m \<Rightarrow>
          if m \<in> set (mCbs adm) then (False, None, adm)
          else
            (let adm' = adm\<lparr>mClientCount := mClientCount adm + 1, mCbs := mCbs adm @ [m]\<rparr>
             in if alive then (False, Some m, adm') else (True, None, adm')))"

definition binderDied :: "'mon \<Rightarrow> ('mon, 's) admin \<Rightarrow> 's \<Rightarrow> fault + (('mon, 's) admin \<times> 's)" where
  "binderDied m adm s =
     (let adm' = adm\<lparr>mCbs := remove1 m (mCbs adm), mClientCount := mClientCount adm - 1\<rparr>
      in if mClientCount adm' = 0 then fbind (write_status adm' ''0'' s) (\<lambda>s'. Inr (adm', s'))
         else Inr (adm', s))"

text \<open>
  The life of the monitors: registrations and the deaths of linked monitors in any order. Beside
  the service the state keeps which monitors are linked and which were registered when already
  dead (\<open>orphans\<close>).
\<close>

record ('mon, 's) mon_run =
  mr_adm :: "('mon, 's) admin"
  mr_native :: 's
  mr_linked :: "'mon list"
  mr_orphans :: "'mon set"

inductive mon_step :: "('mon, 's) mon_run \<Rightarrow> ('mon, 's) mon_run \<Rightarrow> bool" where
  registered: "registerMonitor alive (Some m) (mr_adm r) = (threw, lnk, adm') \<Longrightarrow>
     mon_step r (r\<lparr>mr_adm := adm', mr_linked := mr_linked r @ (case lnk of None \<Rightarrow> [] | Some m \<Rightarrow> [m]),
       mr_orphans := mr_orphans r \<union> (if threw then {m} else {})\<rparr>)"
| died: "m \<in> set (mr_linked r) \<Longrightarrow> binderDied m (mr_adm r) (mr_native r) = Inr (adm', s') \<Longrightarrow>
     mon_step r (r\<lparr>mr_adm := adm', mr_native := s', mr_linked := remove1 m (mr_linked r)\<rparr>)"

inductive_cases mon_stepE: "mon_step r r'"

definition mon_init :: "('mon, 's) mon_run \<Rightarrow> bool" where
  "mon_init r \<longleftrightarrow> mClientCount (mr_adm r) = 0 \<and> mCbs (mr_adm r) = [] \<and> mr_linked r = [] \<and> mr_orphans r = {}"

definition mon_inv :: "('mon, 's) mon_run \<Rightarrow> bool" where
  "mon_inv r \<longleftrightarrow> distinct (mCbs (mr_adm r)) \<and> distinct (mr_linked r) \<and> finite (mr_orphans r) \<and>
     set (mCbs (mr_adm r)) = set (mr_linked r) \<union> mr_orphans r \<and> set (mr_linked r) \<inter> mr_orphans r = {} \<and>
     mClientCount (mr_adm r) = of_nat (length (mCbs (mr_adm r)))"

lemma binderDied_adm:
  "binderDied m adm s = Inr (adm', s') \<Longrightarrow>
     adm' = adm\<lparr>mCbs := remove1 m (mCbs adm), mClientCount := mClientCount adm - 1\<rparr>"
  by (auto simp: binderDied_def Let_def fbind_Inr_iff split: if_splits)

lemma mon_inv_step:
  assumes "mon_inv r" and "mon_step r r'"
  shows "mon_inv r'"
  using assms(2)
proof cases
  case (registered alive m threw lnk adm')
  with assms(1) show ?thesis
    by (auto simp: mon_inv_def registerMonitor_def Let_def split: if_splits)
next
  case (died m adm' s')
  have m: "m \<in> set (mCbs (mr_adm r))" using died assms(1) by (auto simp: mon_inv_def)
  have "length (mCbs (mr_adm r)) = Suc (length (mCbs (mr_adm r)) - 1)"
    using m by (cases "mCbs (mr_adm r)") auto
  then have "(of_nat (length (mCbs (mr_adm r))) :: i32) - 1 = of_nat (length (mCbs (mr_adm r)) - 1)"
    by (metis add_diff_cancel_left' of_nat_Suc)
  with m show ?thesis
    using died assms(1) binderDied_adm [OF died(3)]
    by (auto simp: mon_inv_def length_remove1)
qed

interpretation monitors: inductive_invariant mon_init mon_step mon_inv
proof unfold_locales
  show "mon_init r \<Longrightarrow> mon_inv r" for r :: "('a, 'b) mon_run"
    by (auto simp: mon_init_def mon_inv_def)
qed (rule mon_inv_step)

lemma mon_inv_length:
  "mon_inv r \<Longrightarrow> length (mCbs (mr_adm r)) = length (mr_linked r) + card (mr_orphans r)"
  using distinct_card [of "mCbs (mr_adm r)"] distinct_card [of "mr_linked r"]
  by (auto simp: mon_inv_def card_Un_disjoint)

lemma of_nat_zero_i32: "n < 2 ^ 32 \<Longrightarrow> (of_nat n :: i32) = 0 \<longleftrightarrow> n = 0"
  by (auto simp: word_of_nat_eq_0_iff dest: dvd_imp_le)

lemma only_one:
  "m \<in> set xs \<Longrightarrow> finite O' \<Longrightarrow> length xs + card O' - 1 = 0 \<longleftrightarrow> xs = [m] \<and> O' = {}"
  by (cases xs) auto

section \<open>Two deaths at once\<close>

text \<open>
  \<open>binderDied\<close> as its thread executes it: the removal, the load and the store of \<open>mClientCount--\<close>,
  and the test. Without the lock, two recipients interleave.
\<close>

datatype bd_pc = BdRemove | BdLoad | BdStore i32 | BdTest | BdDone

definition bd_step ::
  "'mon \<Rightarrow> bd_pc \<Rightarrow> ('mon, 's) admin \<times> 's \<Rightarrow> fault + (bd_pc \<times> ('mon, 's) admin \<times> 's)" where
  "bd_step m pc st =
     (case st of (adm, s) \<Rightarrow>
       (case pc of
          BdRemove \<Rightarrow> Inr (BdLoad, adm\<lparr>mCbs := remove1 m (mCbs adm)\<rparr>, s)
        | BdLoad \<Rightarrow> Inr (BdStore (mClientCount adm), adm, s)
        | BdStore v \<Rightarrow> Inr (BdTest, adm\<lparr>mClientCount := v - 1\<rparr>, s)
        | BdTest \<Rightarrow>
            if mClientCount adm = 0 then fbind (write_status adm ''0'' s) (\<lambda>s'. Inr (BdDone, adm, s'))
            else Inr (BdDone, adm, s)
        | BdDone \<Rightarrow> Inr (BdDone, adm, s)))"

text \<open>Run on its own, the four steps are \<open>binderDied\<close>.\<close>

lemma bd_alone:
  "interleave bd_step [0, 0, 0, 0] [(m, BdRemove)] (adm, s) =
     fbind (binderDied m adm s) (\<lambda>st. Inr ([(m, BdDone)], st))"
  by (cases "write_status (adm\<lparr>mCbs := remove1 m (mCbs adm), mClientCount := 0\<rparr>) ''0'' s")
    (simp_all add: bd_step_def binderDied_def Let_def)

section \<open>Over the native stack\<close>

text \<open>A Java string that passes unchanged through the VM's UTF-8 conversion, as plain ASCII does.\<close>

definition plain :: "(string, 'c, 'm, 'ob) jni \<Rightarrow> string \<Rightarrow> bool" where
  "plain env t \<longleftrightarrow> no_nul t \<and> GetStringUTFChars env (Some t) = Inr (Some t)"

lemma autorefresh_not_listed: "\<not> CheckAccessNodePerm (Some MSM_CMD_AUTOREFRESH)"
  by (simp add: CheckAccessNodePerm_iff white_listed_def MSM_CMD_AUTOREFRESH_def)

lemma refused_write:
  "no_nul p \<Longrightarrow> \<not> CheckAccessNodePerm (Some p) \<Longrightarrow>
     snd (setSystemNode os p v) = [SysAccess p]"
  by (simp add: setSystemNode_def Let_def)

lemma stack_write_status:
  assumes "fifo L content" and "reachable_service L ord os sm"
    and vm: "mVRService adm = Some (VRManager_methods env sm)"
    and p: "plain env VR_GRALLOC_PROPERTY" "plain env MSM_CMD_AUTOREFRESH" "plain env v"
  shows "write_status adm v (cs, svc) =
    Inr (cs @ [SysLock, SysPropSet VR_GRALLOC_PROPERTY v, SysUnlock, SysAccess MSM_CMD_AUTOREFRESH], svc)"
proof -
  have nn: "no_nul VR_GRALLOC_PROPERTY" "no_nul MSM_CMD_AUTOREFRESH" "no_nul v"
    and u: "GetStringUTFChars env (Some VR_GRALLOC_PROPERTY) = Inr (Some VR_GRALLOC_PROPERTY)"
      "GetStringUTFChars env (Some MSM_CMD_AUTOREFRESH) = Inr (Some MSM_CMD_AUTOREFRESH)"
      "GetStringUTFChars env (Some v) = Inr (Some v)"
    using p by (simp_all add: plain_def)
  have sp: "snd (setProperty os VR_GRALLOC_PROPERTY v) = [SysLock, SysPropSet VR_GRALLOC_PROPERTY v, SysUnlock]"
    using nn by (simp add: setProperty_def Let_def)
  have sn: "snd (setSystemNode os MSM_CMD_AUTOREFRESH v) = [SysAccess MSM_CMD_AUTOREFRESH]"
    by (rule refused_write [OF nn(2) autorefresh_not_listed])
  show ?thesis
    using stack_set_property [OF assms(1,2) u(1,3), of cs svc]
      stack_set_node [OF assms(1,2) u(2,3), of "cs @ [SysLock, SysPropSet VR_GRALLOC_PROPERTY v, SysUnlock]" svc]
      sp sn nn
    by (simp add: write_status_def admin_setProperty_def admin_setSystemNode_def vm VRManager_methods_def
        drop_refs_def split_beta)
qed

lemma download_checked: "CheckSyscallPerm (Some (download_command path vid pid))"
  by (simp add: CheckSyscallPerm_iff download_command_def)

section \<open>Properties\<close>

text \<open>C19: as long as each registration and each death runs as one step, so that no two deaths
  overlap, the count of monitors is the length of the list in every state that registrations and
  deaths can lead to (of fewer than 2^32 monitors), and the list holds the linked monitors and those registered when already
  dead, each once. So a linked monitor's death writes the status back exactly when it is the last
  one and no monitor was ever registered dead; after one such registration it never happens.
  The code does not enforce the condition: \<open>binderDied\<close> takes no lock, and two deaths that
  overlap can leave an empty list with a count of one (\<open>death_race\<close>).\<close>

theorem monitors_counted:
  assumes "reach mon_init mon_step r" and "length (mCbs (mr_adm r)) < 2 ^ 32"
  shows "mClientCount (mr_adm r) = of_nat (length (mCbs (mr_adm r))) \<and> distinct (mCbs (mr_adm r)) \<and>
    set (mCbs (mr_adm r)) = set (mr_linked r) \<union> mr_orphans r \<and>
    (m \<in> set (mr_linked r) \<longrightarrow>
      binderDied m (mr_adm r) s =
        (let adm' = (mr_adm r)\<lparr>mCbs := remove1 m (mCbs (mr_adm r)),
               mClientCount := of_nat (length (mCbs (mr_adm r)) - 1)\<rparr>
         in if mr_linked r = [m] \<and> mr_orphans r = {} then fbind (write_status adm' ''0'' s) (\<lambda>s'. Inr (adm', s'))
            else Inr (adm', s)))"
proof -
  have inv: "mon_inv r" by (rule monitors.reach_inv [OF assms(1)])
  let ?n = "length (mCbs (mr_adm r))"
  have c: "mClientCount (mr_adm r) = of_nat ?n" using inv by (simp add: mon_inv_def)
  have d: "binderDied m (mr_adm r) s =
      (let adm' = (mr_adm r)\<lparr>mCbs := remove1 m (mCbs (mr_adm r)), mClientCount := of_nat (?n - 1)\<rparr>
       in if mr_linked r = [m] \<and> mr_orphans r = {} then fbind (write_status adm' ''0'' s) (\<lambda>s'. Inr (adm', s'))
          else Inr (adm', s))" if m: "m \<in> set (mr_linked r)"
  proof -
    have n: "0 < ?n" using m inv by (cases "mCbs (mr_adm r)") (auto simp: mon_inv_def)
    then obtain k where k: "?n = Suc k" by (cases ?n) auto
    have one: "mClientCount (mr_adm r) - 1 = of_nat (?n - 1)" using c k by simp
    have "of_nat (?n - 1) = (0 :: i32) \<longleftrightarrow> ?n - 1 = 0"
      by (rule of_nat_zero_i32) (use assms(2) in simp)
    moreover have "?n = length (mr_linked r) + card (mr_orphans r)" by (rule mon_inv_length [OF inv])
    moreover have "finite (mr_orphans r)" using inv by (simp add: mon_inv_def)
    ultimately have "of_nat (?n - 1) = (0 :: i32) \<longleftrightarrow> mr_linked r = [m] \<and> mr_orphans r = {}"
      using only_one [OF m] by (simp only:)
    then show ?thesis unfolding binderDied_def one by (simp add: Let_def)
  qed
  show ?thesis using inv c d by (simp add: mon_inv_def)
qed

definition demo_admin :: "(nat, nat svc_state) admin" where
  "demo_admin = \<lparr>mClientCount = 0, mCbs = [], mVRService = Some (VRManager_methods demo_jni demo_stack)\<rparr>"

definition demo_monitors :: "(nat, nat svc_state) mon_run" where
  "demo_monitors = \<lparr>mr_adm = demo_admin, mr_native = ([], new_VRNativeService), mr_linked = [], mr_orphans = {}\<rparr>"

lemma demo_monitors_dead:
  "mon_step demo_monitors (demo_monitors\<lparr>mr_adm := demo_admin\<lparr>mClientCount := 1, mCbs := [7]\<rparr>, mr_orphans := {7}\<rparr>)"
  using mon_step.registered [of False 7 demo_monitors True None "demo_admin\<lparr>mClientCount := 1, mCbs := [7]\<rparr>"]
  by (simp add: registerMonitor_def demo_monitors_def demo_admin_def)

theorem monitors_counted_witness:
  "\<exists>r adm'. reach mon_init mon_step (r :: (nat, nat svc_state) mon_run) \<and> mr_linked r = [8] \<and> mCbs (mr_adm r) = [7, 8] \<and>
     binderDied 8 (mr_adm r) (mr_native r) = Inr (adm', mr_native r) \<and> mClientCount adm' = 1"
proof -
  let ?r1 = "demo_monitors\<lparr>mr_adm := demo_admin\<lparr>mClientCount := 1, mCbs := [7]\<rparr>, mr_orphans := {7}\<rparr>"
  let ?r2 = "demo_monitors\<lparr>mr_adm := demo_admin\<lparr>mClientCount := 2, mCbs := [7, 8]\<rparr>, mr_linked := [8], mr_orphans := {7}\<rparr>"
  have "mon_init demo_monitors" by (simp add: mon_init_def demo_monitors_def demo_admin_def)
  then have "reach mon_init mon_step demo_monitors" by (rule reach_init)
  then have "reach mon_init mon_step ?r1" by (rule reach_step) (rule demo_monitors_dead)
  moreover have "mon_step ?r1 ?r2"
    using mon_step.registered [of True 8 ?r1 False "Some 8" "demo_admin\<lparr>mClientCount := 2, mCbs := [7, 8]\<rparr>"]
    by (simp add: registerMonitor_def demo_monitors_def demo_admin_def)
  ultimately have r: "reach mon_init mon_step ?r2" by (rule reach_step)
  have l: "length (mCbs (mr_adm ?r2)) < 2 ^ 32" by simp
  show ?thesis
    using r monitors_counted [OF r l, of 8 "mr_native ?r2"] by (simp add: Let_def) (rule exI [of _ ?r2], simp)
qed

text \<open>C39: the recipients of two monitors can lose a count: when both threads load it before either
  stores it, the list is empty, the count is 1 and the status is not written back, and from then
  on every further monitor comes and goes without it. One after the other, the same two
  recipients leave 0 and write the status.\<close>

theorem death_race:
  assumes "mCbs adm = [m1, m2]" and "m1 \<noteq> m2" and "mClientCount adm = 2"
  shows "interleave bd_step [0, 0, 0, 0, 1, 1, 1, 1] [(m1, BdRemove), (m2, BdRemove)] (adm, s) =
      fbind (write_status (adm\<lparr>mCbs := [], mClientCount := 0\<rparr>) ''0'' s) (\<lambda>s'.
        Inr ([(m1, BdDone), (m2, BdDone)], adm\<lparr>mCbs := [], mClientCount := 0\<rparr>, s')) \<and>
    interleave bd_step [0, 1, 0, 1, 0, 1, 0, 1] [(m1, BdRemove), (m2, BdRemove)] (adm, s) =
      Inr ([(m1, BdDone), (m2, BdDone)], adm\<lparr>mCbs := [], mClientCount := 1\<rparr>, s) \<and>
    binderDied m3 (snd (snd (registerMonitor True (Some m3) (adm\<lparr>mCbs := [], mClientCount := 1\<rparr>)))) s =
      Inr (adm\<lparr>mCbs := [], mClientCount := 1\<rparr>, s)"
proof -
  have "interleave bd_step [0, 0, 0, 0, 1, 1, 1, 1] [(m1, BdRemove), (m2, BdRemove)] (adm, s) =
      fbind (write_status (adm\<lparr>mCbs := [], mClientCount := 0\<rparr>) ''0'' s) (\<lambda>s'.
        Inr ([(m1, BdDone), (m2, BdDone)], adm\<lparr>mCbs := [], mClientCount := 0\<rparr>, s'))"
    using assms by (cases "write_status (adm\<lparr>mCbs := [], mClientCount := 0\<rparr>) ''0'' s") (simp_all add: bd_step_def)
  then show ?thesis
    using assms by (simp add: bd_step_def registerMonitor_def binderDied_def Let_def)
qed

theorem death_race_witness:
  "\<exists>ts adm'. interleave bd_step [0, 1, 0, 1, 0, 1, 0, 1] [(7, BdRemove), (8, BdRemove)]
      (demo_admin\<lparr>mCbs := [7, 8], mClientCount := 2\<rparr>, ([], new_VRNativeService)) =
    Inr (ts, adm', ([], new_VRNativeService)) \<and> mCbs adm' = [] \<and> mClientCount adm' = 1"
  using death_race [of "demo_admin\<lparr>mCbs := [7, 8], mClientCount := 2\<rparr>" 7 8] by simp

text \<open>C38: over the whole stack, entering or leaving a VR activity returns 0 and sets the property,
  but never opens the display node it was to switch: its path is not on the service's white list,
  and the result of the refused write is ignored.\<close>

theorem activity_writes:
  assumes "fifo L content" and "reachable_service L ord os sm"
    and "mVRService adm = Some (VRManager_methods env sm)"
    and "list_all (plain env) [VR_GRALLOC_PROPERTY, MSM_CMD_AUTOREFRESH, ''0'', ''1'']"
  shows "activityEnter adm (cs, svc) = Inr (0, cs @
      [SysLock, SysPropSet VR_GRALLOC_PROPERTY ''1'', SysUnlock, SysAccess MSM_CMD_AUTOREFRESH], svc) \<and>
    activityLeave adm (cs, svc) = Inr (0, cs @
      [SysLock, SysPropSet VR_GRALLOC_PROPERTY ''0'', SysUnlock, SysAccess MSM_CMD_AUTOREFRESH], svc) \<and>
    \<not> CheckAccessNodePerm (Some MSM_CMD_AUTOREFRESH)"
  using assms(4) stack_write_status [OF assms(1-3), of "''0''" cs svc] stack_write_status [OF assms(1-3), of "''1''" cs svc]
    autorefresh_not_listed
  by (simp add: activityEnter_def activityLeave_def)

lemma demo_plain: "list_all (plain demo_jni) [VR_GRALLOC_PROPERTY, MSM_CMD_AUTOREFRESH, ''0'', ''1'']"
  by (simp add: plain_def demo_jni_def no_nul_def NUL_def VR_GRALLOC_PROPERTY_def MSM_CMD_AUTOREFRESH_def)

lemma demo_admin_service: "mVRService demo_admin = Some (VRManager_methods demo_jni demo_stack)"
  by (simp add: demo_admin_def)

theorem activity_writes_witness:
  "activityLeave demo_admin ([], new_VRNativeService) = Inr (0,
     [SysLock, SysPropSet VR_GRALLOC_PROPERTY ''0'', SysUnlock, SysAccess MSM_CMD_AUTOREFRESH], new_VRNativeService)"
  using activity_writes [OF fifo_list_binder demo_reachable demo_admin_service demo_plain, of "[]" new_VRNativeService]
  by simp

text \<open>C21: any application that binds the exported service runs any shell command as the native
  service: whatever the file name and the identifiers, the download's command line begins with
  an allowed word, so the check accepts it and the whole text, the caller's shell syntax in it
  included, goes to \<open>popen\<close>, and the caller gets the output back. The flag that a download is
  running stops only calls that find it set.\<close>

theorem download_runs_command:
  assumes "fifo L content" and "reachable_service L ord os sm"
    and "mVRService adm = Some (VRManager_methods env sm)"
    and "plain env (download_command path vid pid)"
    and "os_popen os (download_command path vid pid) = Some out" and "no_nul out" and "int (length out) \<le> INT_MAX"
    and "dl_native d = (cs, svc)"
  shows "startDownLoad adm path vid pid d =
    (if bRunning d then Inr (DlReturned (Some ''-1''), d)
     else Inr (DlReturned (NewStringUTF env out),
       \<lparr>bRunning = False, dl_listeners = Suc (dl_listeners d),
        dl_native = (cs @ [SysPopen (download_command path vid pid), SysPclose], svc)\<rparr>))"
proof -
  let ?cmd = "download_command path vid pid"
  have u: "GetStringUTFChars env (Some ?cmd) = Inr (Some ?cmd)" and n: "no_nul ?cmd"
    using assms(4) by (simp_all add: plain_def)
  have "systemCall os ?cmd '''' = Inr (int (length out), out, [SysPopen ?cmd, SysPclose])"
    using read_lines_no_nul [OF assms(6), of 0 "''''"] assms(5,7) n download_checked [of path vid pid]
    by (simp add: systemCall_def Let_def)
  then have "admin_systemCall adm (Some ?cmd) (cs, svc) =
      Inr (NewStringUTF env out, (cs @ [SysPopen ?cmd, SysPclose], svc))"
    using stack_system_call [OF assms(1,2) u, of cs svc] n assms(6)
    by (simp add: admin_systemCall_def assms(3) VRManager_methods_def drop_refs_def)
  then show ?thesis
    using assms(8) by (simp add: startDownLoad_busy startDownLoad_idle)
qed

theorem download_runs_command_witness:
  "\<exists>d. startDownLoad demo_admin (Some ''x; reboot'') (Some ''1'') None
      \<lparr>bRunning = False, dl_listeners = 0, dl_native = ([], new_VRNativeService)\<rparr> = Inr (DlReturned (Some ''ok''), d) \<and>
    fst (dl_native d) = [SysPopen
      ''dfu-util -v -a 0 -s :mass-erase:force -d 1:null -D x; reboot 2>&1'', SysPclose]"
proof -
  let ?d = "\<lparr>bRunning = False, dl_listeners = 0, dl_native = ([], new_VRNativeService)\<rparr>"
  have c: "download_command (Some ''x; reboot'') (Some ''1'') None =
      ''dfu-util -v -a 0 -s :mass-erase:force -d 1:null -D x; reboot 2>&1''"
    by (simp add: download_command_def jconcat_def)
  have p: "plain demo_jni (download_command (Some ''x; reboot'') (Some ''1'') None)"
    unfolding c by (simp add: plain_def demo_jni_def no_nul_def NUL_def)
  have o: "os_popen demo_os (download_command (Some ''x; reboot'') (Some ''1'') None) = Some ''ok''"
    by (simp add: demo_os_def)
  have n: "no_nul ''ok''" "int (length ''ok'') \<le> INT_MAX" by (simp_all add: no_nul_def NUL_def INT_MAX_def)
  have s: "dl_native ?d = ([], new_VRNativeService)" by simp
  show ?thesis
    using download_runs_command [OF fifo_list_binder demo_reachable demo_admin_service p o n s]
    unfolding c by (simp add: demo_jni_def)
qed

end
