(* ===== verification/HmdReceiver.thy ===== *)
theory HmdReceiver
  imports Complex_Main AdminService
begin

text \<open>
  \<open>HMDReceiver.java\<close>, \<open>VRAdminApplication.java\<close>, \<open>PSensorUtility.java\<close> and the life cycle of
  \<open>VRAdminService.java\<close>: the broadcast receiver, the screen wake lock of the application, the
  proximity sensor and the service's \<open>onCreate\<close> and \<open>onDestroy\<close>. A wake lock counts its
  acquisitions; releasing one that is not held throws. What the code asks of Android (power
  manager, broadcasts, service start, sensor registration) is a list of actions.
\<close>

datatype java_exn = NullPointerException | WakeLockUnderLocked

record intent =
  i_action :: "string option"
  i_device :: "(int \<times> int) option"      \<comment> \<open>vendor and product id of the USB device\<close>
  i_type :: "string option"

datatype action =
    WakeUp
  | GoToSleep
  | LockAcquire
  | LockRelease
  | LockPartial nat                      \<comment> \<open>a partial wake lock with its time-out\<close>
  | SendBroadcast intent
  | StartService

type_synonym 'a outcome = "java_exn + ('a \<times> action list)"

section \<open>VRAdminApplication\<close>

record app =
  mPowerMgr :: bool                      \<comment> \<open>not null\<close>
  mWakeLock :: "nat option"              \<comment> \<open>the count of acquisitions\<close>
  mHoldWakeLock :: bool

definition new_app :: app where
  "new_app = \<lparr>mPowerMgr = False, mWakeLock = None, mHoldWakeLock = False\<rparr>"

definition app_onCreate :: "app \<Rightarrow> app" where
  "app_onCreate a = a\<lparr>mPowerMgr := True, mWakeLock := Some 0\<rparr>"

definition setHoldWakeLock :: "bool \<Rightarrow> app \<Rightarrow> app" where
  "setHoldWakeLock hold a = a\<lparr>mHoldWakeLock := hold\<rparr>"

definition getHoldWakeLock :: "app \<Rightarrow> bool" where
  "getHoldWakeLock a = (if mWakeLock a = None then False else mHoldWakeLock a)"

text \<open>What follows the call on the power manager in the three handlers.\<close>

definition lock_acquire :: "action list \<Rightarrow> app \<Rightarrow> app outcome" where
  "lock_acquire acts a =
     (if \<not> mHoldWakeLock a then Inr (a, acts)
      else (case mWakeLock a of
          None \<Rightarrow> Inl NullPointerException
        | Some n \<Rightarrow> if \<not> 0 < n then Inr (a\<lparr>mWakeLock := Some (Suc n)\<rparr>, acts @ [LockAcquire])
            else Inr (a, acts)))"

definition lock_release :: "action list \<Rightarrow> app \<Rightarrow> app outcome" where
  "lock_release acts a =
     (if \<not> mHoldWakeLock a then Inr (a, acts)
      else (case mWakeLock a of
          None \<Rightarrow> Inl NullPointerException
        | Some n \<Rightarrow>
            if 0 < n then
              (if n = 0 then Inl WakeLockUnderLocked
               else Inr (a\<lparr>mWakeLock := Some (n - 1)\<rparr>, acts @ [LockRelease]))
            else Inr (a, acts)))"

definition onUSBAttached :: "app \<Rightarrow> app outcome" where
  "onUSBAttached a = Inr (a, [])"

definition onUSBDetached :: "app \<Rightarrow> app outcome" where
  "onUSBDetached a = (if \<not> mPowerMgr a then Inl NullPointerException else lock_release [WakeUp] a)"

definition onPSensorNear :: "app \<Rightarrow> app outcome" where
  "onPSensorNear a = (if \<not> mPowerMgr a then Inl NullPointerException else lock_acquire [WakeUp] a)"

definition onPSensorFar :: "app \<Rightarrow> app outcome" where
  "onPSensorFar a = (if \<not> mPowerMgr a then Inl NullPointerException else lock_release [GoToSleep] a)"

section \<open>HMDReceiver\<close>

definition VR_HMD_VENDOR_ID :: int where "VR_HMD_VENDOR_ID = 0x2b0e"

definition VR_HMD_PRODUCT_ID :: int where "VR_HMD_PRODUCT_ID = 0x1bfb"

definition isPhonePlugin :: "int \<times> int \<Rightarrow> bool" where
  "isPhonePlugin device \<longleftrightarrow> fst device = VR_HMD_VENDOR_ID \<and> snd device = VR_HMD_PRODUCT_ID"

definition USB_ATTACHED :: string where
  "USB_ATTACHED = ''android.hardware.usb.action.USB_DEVICE_ATTACHED''"

definition USB_DETACHED :: string where
  "USB_DETACHED = ''android.hardware.usb.action.USB_DEVICE_DETACHED''"

definition BOOT_COMPLETED :: string where
  "BOOT_COMPLETED = ''android.intent.action.BOOT_COMPLETED''"

definition PROXIMITY_ACTION :: string where
  "PROXIMITY_ACTION = ''android.intent.action.proximity_sensor2''"

definition plain_intent :: "string \<Rightarrow> string option \<Rightarrow> intent" where
  "plain_intent act type = \<lparr>i_action = Some act, i_device = None, i_type = type\<rparr>"

definition add_acts :: "action list \<Rightarrow> app outcome \<Rightarrow> app outcome" where
  "add_acts acts r = (case r of Inl e \<Rightarrow> Inl e | Inr (a, acts') \<Rightarrow> Inr (a, acts @ acts'))"

text \<open>
  \<open>onReceive\<close>: the first two comparisons call \<open>equals\<close> on the constant, the others on the
  action; those throw when it is null, and so does the last on a null type.
\<close>

definition onReceive_proximity :: "string \<Rightarrow> intent \<Rightarrow> app \<Rightarrow> app outcome" where
  "onReceive_proximity act i a =
     (if act = PROXIMITY_ACTION then
        (case i_type i of
           None \<Rightarrow> Inl NullPointerException
         | Some t \<Rightarrow>
             if t = ''psensor/1'' then onPSensorNear a
             else if t = ''psensor/0'' then onPSensorFar a
             else Inr (a, []))
      else Inr (a, []))"

definition onReceive :: "intent \<Rightarrow> app \<Rightarrow> app outcome" where
  "onReceive i a =
     (case i_action i of
        None \<Rightarrow> Inl NullPointerException
      | Some act \<Rightarrow>
          (if act = USB_ATTACHED then
             (case i_device i of
                Some dev \<Rightarrow>
                  if isPhonePlugin dev
                  then add_acts [SendBroadcast (plain_intent ''android.intent.action.lvr_hmd_in'' None)] (onUSBAttached a)
                  else Inr (a, [])
              | None \<Rightarrow> Inr (a, []))
           else if act = USB_DETACHED then
             (case i_device i of
                Some dev \<Rightarrow>
                  if isPhonePlugin dev
                  then add_acts [SendBroadcast (plain_intent ''android.intent.action.lvr_hmd_out'' None)] (onUSBDetached a)
                  else Inr (a, [])
              | None \<Rightarrow> Inr (a, []))
           else
             add_acts (if act = BOOT_COMPLETED then [StartService] else [])
               (onReceive_proximity act i a)))"

section \<open>PSensorUtility\<close>

record psensor =
  mPSensor :: bool                       \<comment> \<open>not null: the device has the sensor\<close>
  isListening :: bool
  mSensorListener :: bool                \<comment> \<open>not null: registered with the sensor manager\<close>

text \<open>The constructor, given whether there is a sensor manager and a proximity sensor.\<close>

definition new_PSensorUtility :: "bool \<Rightarrow> bool \<Rightarrow> java_exn + psensor" where
  "new_PSensorUtility mgr sensor =
     (if \<not> mgr then Inl NullPointerException
      else Inr \<lparr>mPSensor = sensor, isListening = False, mSensorListener = False\<rparr>)"

definition registerSensor :: "psensor \<Rightarrow> psensor" where
  "registerSensor p =
     (if isListening p then p
      else
        (let p' = p\<lparr>isListening := True\<rparr>
         in if \<not> mPSensor p' then p' else p'\<lparr>mSensorListener := True\<rparr>))"

definition unregisterSensor :: "psensor \<Rightarrow> psensor" where
  "unregisterSensor p =
     (if \<not> isListening p then p else p\<lparr>isListening := False, mSensorListener := False\<rparr>)"

text \<open>A sensor reading is a rational number, or none for a float that is not a number.\<close>

definition mMaxiRange :: rat where "mMaxiRange = 7 / 2"

definition is_near :: "rat option \<Rightarrow> bool" where
  "is_near reading = (case reading of None \<Rightarrow> False | Some v \<Rightarrow> v < mMaxiRange)"

section \<open>The life of the service\<close>

definition SLEEP_DELAY :: nat where "SLEEP_DELAY = 1000 * 60"

text \<open>The listener the service registers: what it does near and far.\<close>

definition service_onNear :: "action list" where
  "service_onNear = [SendBroadcast (plain_intent PROXIMITY_ACTION (Some ''psensor/1''))]"

definition service_onFar :: "action list" where
  "service_onFar = [LockPartial SLEEP_DELAY, SendBroadcast (plain_intent PROXIMITY_ACTION (Some ''psensor/0''))]"

text \<open>A sensor event: its sensor's type is compared before its value is read.\<close>

definition onSensorChanged :: "bool \<Rightarrow> rat option \<Rightarrow> action list" where
  "onSensorChanged proximity reading =
     (if proximity then (if is_near reading then service_onNear else service_onFar) else [])"

text \<open>
  \<open>onCreate\<close> after \<open>VRManager.getInstance\<close>: the device's name decides whether the lock and the
  sensor are used. The result is the exception, if one is thrown, the sensor object, the
  application and the native state. \<open>onDestroy\<close> gives the sensor object up.
\<close>

definition service_onCreate ::
  "'s vr_manager \<Rightarrow> bool \<Rightarrow> bool \<Rightarrow> app \<Rightarrow> 's \<Rightarrow> fault + (java_exn option \<times> psensor option \<times> app \<times> 's)" where
  "service_onCreate vm mgr sensor a s =
     fbind (vm_getProperty vm (Some ''ro.product.device'') s) (\<lambda>(device, s').
       if device = Some ''LeVR_Max_1'' then
         (case new_PSensorUtility mgr sensor of
            Inl e \<Rightarrow> Inr (Some e, None, setHoldWakeLock True a, s')
          | Inr p \<Rightarrow> Inr (None, Some (registerSensor p), setHoldWakeLock True a, s'))
       else Inr (None, None, a, s'))"

definition service_onDestroy :: "psensor option \<Rightarrow> psensor option \<times> psensor option" where
  "service_onDestroy p = (map_option unregisterSensor p, None)"

section \<open>The wake lock over all intents\<close>

text \<open>The intents on which the receiver does not throw, and what a well-formed one means.\<close>

definition intent_ok :: "intent \<Rightarrow> bool" where
  "intent_ok i \<longleftrightarrow> i_action i \<noteq> None \<and> (i_action i = Some PROXIMITY_ACTION \<longrightarrow> i_type i \<noteq> None)"

datatype hmd_event = HmdNear | HmdFar | HmdOut | HmdOther

definition hmd_event_of :: "intent \<Rightarrow> hmd_event" where
  "hmd_event_of i =
     (if i_action i = Some USB_DETACHED \<and> i_device i = Some (0x2b0e, 0x1bfb) then HmdOut
      else if i_action i = Some PROXIMITY_ACTION \<and> i_type i = Some ''psensor/1'' then HmdNear
      else if i_action i = Some PROXIMITY_ACTION \<and> i_type i = Some ''psensor/0'' then HmdFar
      else HmdOther)"

text \<open>The specification: the lock is wanted from the last near event on, until far or detached,
  while holding is switched on.\<close>

fun wants_lock :: "hmd_event \<Rightarrow> bool \<Rightarrow> bool \<Rightarrow> bool" where
  "wants_lock HmdNear hold held = (held \<or> hold)"
| "wants_lock HmdFar hold held = (held \<and> \<not> hold)"
| "wants_lock HmdOut hold held = (held \<and> \<not> hold)"
| "wants_lock HmdOther hold held = held"

datatype app_event = HoldLock | Received intent

fun app_step :: "app_event \<Rightarrow> app \<Rightarrow> app outcome" where
  "app_step HoldLock a = Inr (setHoldWakeLock True a, [])"
| "app_step (Received i) a = onReceive i a"

fun app_run :: "app_event list \<Rightarrow> app \<Rightarrow> app outcome" where
  "app_run [] a = Inr (a, [])"
| "app_run (e # es) a =
     (case app_step e a of Inl x \<Rightarrow> Inl x | Inr (a', acts) \<Rightarrow> add_acts acts (app_run es a'))"

fun spec_step :: "app_event \<Rightarrow> bool \<times> bool \<Rightarrow> bool \<times> bool" where
  "spec_step HoldLock (hold, held) = (True, held)"
| "spec_step (Received i) (hold, held) = (hold, wants_lock (hmd_event_of i) hold held)"

text \<open>The application stands for the pair of the two flags.\<close>

definition app_rel :: "app \<Rightarrow> bool \<times> bool \<Rightarrow> bool" where
  "app_rel a h \<longleftrightarrow> mPowerMgr a \<and> mHoldWakeLock a = fst h \<and> mWakeLock a = Some (of_bool (snd h))"

definition lock_balance :: "action list \<Rightarrow> int" where
  "lock_balance acts = int (count_list acts LockAcquire) - int (count_list acts LockRelease)"

lemma lock_balance_append [simp]: "lock_balance (xs @ ys) = lock_balance xs + lock_balance ys"
  by (simp add: lock_balance_def)

lemma lock_balance_simps [simp]:
  "lock_balance [] = 0" "lock_balance (LockAcquire # xs) = lock_balance xs + 1"
  "lock_balance (LockRelease # xs) = lock_balance xs - 1" "lock_balance (WakeUp # xs) = lock_balance xs"
  "lock_balance (GoToSleep # xs) = lock_balance xs" "lock_balance (SendBroadcast i # xs) = lock_balance xs"
  "lock_balance (StartService # xs) = lock_balance xs" "lock_balance (LockPartial n # xs) = lock_balance xs"
  by (simp_all add: lock_balance_def)

lemmas intent_defs = USB_ATTACHED_def USB_DETACHED_def BOOT_COMPLETED_def PROXIMITY_ACTION_def

lemma actions_differ:
  "USB_ATTACHED \<noteq> USB_DETACHED" "USB_ATTACHED \<noteq> PROXIMITY_ACTION" "USB_DETACHED \<noteq> PROXIMITY_ACTION"
  "BOOT_COMPLETED \<noteq> PROXIMITY_ACTION" "USB_ATTACHED \<noteq> BOOT_COMPLETED" "USB_DETACHED \<noteq> BOOT_COMPLETED"
  by (simp_all add: intent_defs)

lemma lock_acquire_rel:
  "app_rel a (hold, held) \<Longrightarrow> \<exists>a' acts'. lock_acquire acts a = Inr (a', acts') \<and>
     app_rel a' (hold, held \<or> hold) \<and>
     lock_balance acts' = lock_balance acts + of_bool (held \<or> hold) - of_bool held"
  by (cases held; cases hold) (simp_all add: app_rel_def lock_acquire_def)

lemma lock_release_rel:
  "app_rel a (hold, held) \<Longrightarrow> \<exists>a' acts'. lock_release acts a = Inr (a', acts') \<and>
     app_rel a' (hold, held \<and> \<not> hold) \<and>
     lock_balance acts' = lock_balance acts + of_bool (held \<and> \<not> hold) - of_bool held"
  by (cases held; cases hold) (simp_all add: app_rel_def lock_release_def)

lemma isPhonePlugin_iff: "isPhonePlugin dev \<longleftrightarrow> dev = (0x2b0e, 0x1bfb)"
  by (cases dev) (simp add: isPhonePlugin_def VR_HMD_VENDOR_ID_def VR_HMD_PRODUCT_ID_def)

lemma add_acts_Inr [simp]: "add_acts xs (Inr (a, ys)) = Inr (a, xs @ ys)" "add_acts xs (Inl e) = Inl e"
  by (simp_all add: add_acts_def)

lemma types_differ: "''psensor/0'' \<noteq> ''psensor/1''" "''psensor/1'' \<noteq> ''psensor/0''"
  by simp_all

lemma onReceive_event:
  assumes "mPowerMgr a" and "intent_ok i"
  shows "\<exists>acts. lock_balance acts = 0 \<and> onReceive i a = add_acts acts (case hmd_event_of i of
      HmdNear \<Rightarrow> lock_acquire [WakeUp] a | HmdFar \<Rightarrow> lock_release [GoToSleep] a
    | HmdOut \<Rightarrow> lock_release [WakeUp] a | HmdOther \<Rightarrow> Inr (a, []))"
proof -
  obtain act where act: "i_action i = Some act" using assms(2) by (auto simp: intent_ok_def)
  note defs = onReceive_def act hmd_event_of_def assms(1) onUSBAttached_def onUSBDetached_def isPhonePlugin_iff
  consider "act = USB_ATTACHED" | "act = USB_DETACHED" | "act = PROXIMITY_ACTION"
    | "act \<noteq> USB_ATTACHED" "act \<noteq> USB_DETACHED" "act \<noteq> PROXIMITY_ACTION" by blast
  then show ?thesis
  proof cases
    case 1
    then show ?thesis using actions_differ
      by (intro exI [of _ "snd (case onReceive i a of Inr x \<Rightarrow> x | Inl e \<Rightarrow> (a, []))"])
        (auto simp: defs split: option.split)
  next
    case 2
    let ?acts = "if i_device i = Some (0x2b0e, 0x1bfb)
      then [SendBroadcast (plain_intent ''android.intent.action.lvr_hmd_out'' None)] else []"
    show ?thesis using 2 actions_differ
      by (intro exI [of _ ?acts]) (auto simp: defs split: option.split)
  next
    case 3
    then obtain t where "i_type i = Some t" using assms(2) act by (auto simp: intent_ok_def)
    with 3 show ?thesis using actions_differ types_differ
      by (intro exI [of _ "[]"])
        (auto simp: defs onReceive_proximity_def onPSensorNear_def onPSensorFar_def add_acts_def split: sum.split)
  next
    case 4
    then show ?thesis
      by (intro exI [of _ "if act = BOOT_COMPLETED then [StartService] else []"])
        (auto simp: defs onReceive_proximity_def)
  qed
qed

lemma app_step_rel:
  assumes "app_rel a h" and "\<forall>i. e = Received i \<longrightarrow> intent_ok i"
  shows "\<exists>a' acts. app_step e a = Inr (a', acts) \<and> app_rel a' (spec_step e h) \<and>
    lock_balance acts = of_bool (snd (spec_step e h)) - of_bool (snd h)"
proof (cases e)
  case HoldLock
  then show ?thesis using assms(1)
    by (cases h) (auto simp: app_rel_def setHoldWakeLock_def)
next
  case (Received i)
  obtain hold held where h: "h = (hold, held)" by (cases h)
  have rel: "app_rel a (hold, held)" using assms(1) h by simp
  have p: "mPowerMgr a" using assms(1) by (simp add: app_rel_def)
  have ok: "intent_ok i" using assms(2) Received by simp
  obtain acts where b: "lock_balance acts = 0"
    and r: "onReceive i a = add_acts acts (case hmd_event_of i of
      HmdNear \<Rightarrow> lock_acquire [WakeUp] a | HmdFar \<Rightarrow> lock_release [GoToSleep] a
    | HmdOut \<Rightarrow> lock_release [WakeUp] a | HmdOther \<Rightarrow> Inr (a, []))"
    using onReceive_event [OF p ok] by blast
  show ?thesis
    using lock_acquire_rel [OF rel, of "[WakeUp]"] lock_release_rel [OF rel, of "[WakeUp]"]
      lock_release_rel [OF rel, of "[GoToSleep]"] rel b r
    by (cases "hmd_event_of i") (auto simp: Received h)
qed

lemma app_run_rel:
  assumes "app_rel a h" and "\<forall>i. Received i \<in> set es \<longrightarrow> intent_ok i"
  shows "\<exists>a' acts. app_run es a = Inr (a', acts) \<and> app_rel a' (fold spec_step es h) \<and>
    lock_balance acts = of_bool (snd (fold spec_step es h)) - of_bool (snd h)"
  using assms
proof (induction es arbitrary: a h)
  case (Cons e es)
  obtain a1 acts1 where s: "app_step e a = Inr (a1, acts1)" "app_rel a1 (spec_step e h)"
    "lock_balance acts1 = of_bool (snd (spec_step e h)) - of_bool (snd h)"
    using app_step_rel [OF Cons.prems(1), of e] Cons.prems(2) by auto
  from Cons.IH [OF s(2)] Cons.prems(2) obtain a2 acts2 where
    "app_run es a1 = Inr (a2, acts2)" "app_rel a2 (fold spec_step es (spec_step e h))"
    "lock_balance acts2 = of_bool (snd (fold spec_step es (spec_step e h))) - of_bool (snd (spec_step e h))"
    by auto
  with s show ?case by simp
qed simp

lemma app_created: "app_rel (app_onCreate new_app) (False, False)"
  by (simp add: app_rel_def app_onCreate_def new_app_def)

section \<open>Properties\<close>

text \<open>The receiver of a created application throws on exactly the intents without an action and
  the proximity intents without a type, always a null pointer exception, and it is exported, so
  any application can send one. Every other intent is handled.\<close>

lemma receiver_throws:
  assumes "app_rel a h"
  shows "onReceive i a = Inl e \<longleftrightarrow> e = NullPointerException \<and>
    (i_action i = None \<or> i_action i = Some ''android.intent.action.proximity_sensor2'' \<and> i_type i = None)"
proof (cases "intent_ok i")
  case True
  then obtain a' acts where "onReceive i a = Inr (a', acts)"
    using app_step_rel [OF assms, of "Received i"] by auto
  with True show ?thesis by (auto simp: intent_ok_def PROXIMITY_ACTION_def)
next
  case False
  then show ?thesis
    using actions_differ by (auto simp: intent_ok_def onReceive_def onReceive_proximity_def PROXIMITY_ACTION_def)
qed

lemma app_run_throws:
  "app_rel a h \<Longrightarrow> \<exists>i. Received i \<in> set es \<and> \<not> intent_ok i \<Longrightarrow> app_run es a = Inl NullPointerException"
proof (induction es arbitrary: a h)
  case (Cons e es)
  show ?case
  proof (cases "\<exists>i. e = Received i \<and> \<not> intent_ok i")
    case True
    then obtain i where i: "e = Received i" "\<not> intent_ok i" by blast
    then have "onReceive i a = Inl NullPointerException"
      unfolding receiver_throws [OF Cons.prems(1)] by (auto simp: intent_ok_def PROXIMITY_ACTION_def)
    then show ?thesis by (simp add: i)
  next
    case False
    then obtain a1 acts1 where "app_step e a = Inr (a1, acts1)" "app_rel a1 (spec_step e h)"
      using app_step_rel [OF Cons.prems(1), of e] by auto
    moreover have "\<exists>i. Received i \<in> set es \<and> \<not> intent_ok i" using Cons.prems(2) False by auto
    ultimately show ?thesis using Cons.IH [of a1 "spec_step e h"] by simp
  qed
qed simp

lemma fold_spec_hold: "fst (fold spec_step es x) = (fst x \<or> HoldLock \<in> set es)"
proof (induction es arbitrary: x)
  case (Cons e es)
  then show ?case by (cases x; cases e) auto
qed simp

text \<open>C18: the wake lock on every sequence of intents and of switching the holding on, from a
  created application. Either the run ends with a null pointer exception, and then an intent
  without an action, or a proximity intent without a type, was received; or none was, no handler
  threw, the lock is never held twice nor released when free, it is held exactly when the last of
  the near, far and detached events was near and holding was on by then, and what was acquired
  and not released is exactly this.\<close>

theorem wake_lock_refines:
  "case app_run es (app_onCreate new_app) of
     Inl e \<Rightarrow> e = NullPointerException \<and> (\<exists>i. Received i \<in> set es \<and>
       (i_action i = None \<or> i_action i = Some PROXIMITY_ACTION \<and> i_type i = None))
   | Inr (a, acts) \<Rightarrow>
       \<not> (\<exists>i. Received i \<in> set es \<and>
         (i_action i = None \<or> i_action i = Some PROXIMITY_ACTION \<and> i_type i = None)) \<and>
       mWakeLock a = Some (of_bool (snd (fold spec_step es (False, False)))) \<and>
       mHoldWakeLock a = (HoldLock \<in> set es) \<and>
       int (count_list acts LockAcquire) - int (count_list acts LockRelease) =
         of_bool (snd (fold spec_step es (False, False)))"
proof (cases "\<forall>i. Received i \<in> set es \<longrightarrow> intent_ok i")
  case True
  then show ?thesis
    using app_run_rel [OF app_created True] fold_spec_hold [of es "(False, False)"]
    by (auto simp: app_rel_def lock_balance_def intent_ok_def)
next
  case False
  then show ?thesis using app_run_throws [OF app_created, of es] by (auto simp: intent_ok_def)
qed

theorem wake_lock_refines_witness:
  "\<exists>a acts. app_run [HoldLock, Received (plain_intent PROXIMITY_ACTION (Some ''psensor/1'')),
       Received (plain_intent PROXIMITY_ACTION (Some ''psensor/1''))] (app_onCreate new_app) = Inr (a, acts) \<and>
     mWakeLock a = Some 1 \<and> int (count_list acts LockAcquire) - int (count_list acts LockRelease) = 1"
proof -
  let ?near = "plain_intent PROXIMITY_ACTION (Some ''psensor/1'')"
  have "hmd_event_of ?near = HmdNear"
    using actions_differ by (simp add: hmd_event_of_def plain_intent_def)
  then show ?thesis
    using wake_lock_refines [of "[HoldLock, Received ?near, Received ?near]"]
    by (auto simp: plain_intent_def simp del: app_run.simps split: sum.splits)
qed

definition broadcasts :: "action list \<Rightarrow> intent list" where
  "broadcasts acts = concat (map (\<lambda>x. case x of SendBroadcast i \<Rightarrow> [i] | _ \<Rightarrow> []) acts)"

lemma broadcasts_sensor:
  "map Received (broadcasts (onSensorChanged True r)) =
     [Received (plain_intent PROXIMITY_ACTION (Some (if is_near r then ''psensor/1'' else ''psensor/0'')))]"
  by (simp add: broadcasts_def onSensorChanged_def service_onNear_def service_onFar_def)

lemma is_near_eq: "is_near r = (case r of None \<Rightarrow> False | Some v \<Rightarrow> v < 7 / 2)"
  unfolding is_near_def mMaxiRange_def ..

lemma hmd_event_sensor:
  "hmd_event_of (plain_intent PROXIMITY_ACTION (Some (if b then ''psensor/1'' else ''psensor/0''))) =
     (if b then HmdNear else HmdFar)"
  using actions_differ by (simp add: hmd_event_of_def plain_intent_def)

lemma spec_readings:
  "fold spec_step (concat (map (\<lambda>r. map Received (broadcasts (onSensorChanged True r))) rs)) (True, held) =
     (True, if rs = [] then held else is_near (last rs))"
  by (induction rs arbitrary: held) (simp_all add: broadcasts_sensor hmd_event_sensor)

text \<open>C22: from the sensor to the screen, over the whole stack: the service of a device whose
  \<open>ro.product.device\<close> is \<open>LeVR_Max_1\<close> registers the sensor and switches holding on; after any
  readings, with their broadcasts delivered in order, the screen lock is held exactly when the
  last reading is below 3.5. On any other device the service leaves lock and sensor alone.\<close>

theorem sensor_drives_lock:
  assumes "fifo L content" and "reachable_service L ord os sm" and "plain env ''ro.product.device''"
    and "os_property_get os ''ro.product.device'' = (status, dev)" and "0 \<le> status"
    and "NewStringUTF env (cstr dev) = Some dev"
    and "app_rel a (False, False)"
  shows "service_onCreate (VRManager_methods env sm) True sensor a (cs, svc) =
      Inr (None, (if dev = ''LeVR_Max_1''
          then Some \<lparr>mPSensor = sensor, isListening = True, mSensorListener = sensor\<rparr> else None),
        (if dev = ''LeVR_Max_1'' then setHoldWakeLock True a else a),
        (cs @ [SysLock, SysPropGet ''ro.product.device'', SysUnlock], svc)) \<and>
    (\<exists>a' acts. app_run (concat (map (\<lambda>r. map Received (broadcasts (onSensorChanged True r))) readings))
        (setHoldWakeLock True a) = Inr (a', acts) \<and>
      mWakeLock a' = Some (of_bool (case readings of [] \<Rightarrow> False
        | _ \<Rightarrow> (case last readings of None \<Rightarrow> False | Some v \<Rightarrow> v < 7 / 2))))"
proof -
  let ?es = "concat (map (\<lambda>r. map Received (broadcasts (onSensorChanged True r))) readings)"
  have u: "GetStringUTFChars env (Some ''ro.product.device'') = Inr (Some ''ro.product.device'')"
    and n: "no_nul ''ro.product.device''" using assms(3) by (simp_all add: plain_def)
  have g: "getProperty os ''ro.product.device'' '''' =
      (status, cstr dev, [SysLock, SysPropGet ''ro.product.device'', SysUnlock])"
    using n assms(4,5) by (simp add: getProperty_def Let_def)
  have "vm_getProperty (VRManager_methods env sm) (Some ''ro.product.device'') (cs, svc) =
      Inr (Some dev, (cs @ [SysLock, SysPropGet ''ro.product.device'', SysUnlock], svc))"
    using stack_get_property [OF assms(1,2) u, of cs svc] n g assms(6)
    by (simp add: VRManager_methods_def drop_refs_def)
  then have create: "service_onCreate (VRManager_methods env sm) True sensor a (cs, svc) =
      Inr (None, (if dev = ''LeVR_Max_1''
          then Some \<lparr>mPSensor = sensor, isListening = True, mSensorListener = sensor\<rparr> else None),
        (if dev = ''LeVR_Max_1'' then setHoldWakeLock True a else a),
        (cs @ [SysLock, SysPropGet ''ro.product.device'', SysUnlock], svc))"
    by (simp add: service_onCreate_def new_PSensorUtility_def registerSensor_def Let_def)
  have rel: "app_rel (setHoldWakeLock True a) (True, False)"
    using assms(7) by (simp add: app_rel_def setHoldWakeLock_def)
  have ok: "\<forall>i. Received i \<in> set ?es \<longrightarrow> intent_ok i"
    by (auto simp: broadcasts_sensor intent_ok_def plain_intent_def)
  from app_run_rel [OF rel ok] obtain a' acts where r: "app_run ?es (setHoldWakeLock True a) = Inr (a', acts)"
    and "app_rel a' (fold spec_step ?es (True, False))" by blast
  then have "mWakeLock a' = Some (of_bool (case readings of [] \<Rightarrow> False
        | _ \<Rightarrow> (case last readings of None \<Rightarrow> False | Some v \<Rightarrow> v < 7 / 2)))"
    by (simp add: spec_readings app_rel_def is_near_eq split: list.split)
  with create r show ?thesis by blast
qed

theorem sensor_drives_lock_witness:
  "\<exists>(sm :: (nat, nat, nat svc_state) service_manager) a' acts. service_onCreate (VRManager_methods demo_jni sm) True True (app_onCreate new_app) ([], new_VRNativeService) =
      Inr (None, Some \<lparr>mPSensor = True, isListening = True, mSensorListener = True\<rparr>,
        setHoldWakeLock True (app_onCreate new_app),
        ([SysLock, SysPropGet ''ro.product.device'', SysUnlock], new_VRNativeService)) \<and>
    app_run (concat (map (\<lambda>r. map Received (broadcasts (onSensorChanged True r))) [Some 5, Some 1]))
      (setHoldWakeLock True (app_onCreate new_app)) = Inr (a', acts) \<and> mWakeLock a' = Some 1"
proof -
  let ?os = "demo_os\<lparr>os_property_get := \<lambda>k. (10, ''LeVR_Max_1'')\<rparr>"
  let ?L = "list_binder :: (nat item list, nat, nat, nat svc_state) binder_lib"
  let ?sm = "\<lparr>sm_getService = (\<lambda>n. Some 4),
      sm_interface_cast = (\<lambda>b. Some (bp_vtable ?L (served_by ?L [0, 1, 2] (native_vtable ?os))))\<rparr>
      :: (nat, nat, nat svc_state) service_manager"
  have r: "reachable_service ?L [0, 1, 2] ?os ?sm" by (simp add: reachable_service_def getVRService_def)
  have p: "plain demo_jni ''ro.product.device''" by (simp add: plain_def demo_jni_def no_nul_def NUL_def)
  have g: "os_property_get ?os ''ro.product.device'' = (10, ''LeVR_Max_1'')" "(0 :: int) \<le> 10" by simp_all
  have n: "NewStringUTF demo_jni (cstr ''LeVR_Max_1'') = Some ''LeVR_Max_1''" by (simp add: demo_jni_def) code_simp
  have create: "service_onCreate (VRManager_methods demo_jni ?sm) True True (app_onCreate new_app) ([], new_VRNativeService) =
      Inr (None, Some \<lparr>mPSensor = True, isListening = True, mSensorListener = True\<rparr>,
        setHoldWakeLock True (app_onCreate new_app),
        ([SysLock, SysPropGet ''ro.product.device'', SysUnlock], new_VRNativeService))"
    using sensor_drives_lock [OF fifo_list_binder r p g n app_created, of True "[]" new_VRNativeService "[]"] by simp
  obtain a' acts where a: "app_run (concat (map (\<lambda>r. map Received (broadcasts (onSensorChanged True r))) [Some 5, Some 1]))
      (setHoldWakeLock True (app_onCreate new_app)) = Inr (a', acts)" "mWakeLock a' = Some 1"
    using sensor_drives_lock [OF fifo_list_binder r p g n app_created, of True "[]" new_VRNativeService "[Some 5, Some 1]"]
    by auto
  show ?thesis using create a by blast
qed

end
