(* ===== verification/Spec2Isabelle.thy ===== *)
theory Spec2Isabelle
  imports ServerMain DfuProgress HmdReceiver
begin

text \<open>
  VR-Admin: an Android system application for VR headsets, with a native process beside it. Two
  native programs share the code under \<open>src/jni\<close>; the application is the Java code under
  \<open>src/src/com/android/VRAdmin\<close>.

  The process \<open>vrserver\<close> (\<open>main_vrserver.cpp\<close>) offers two services. A local socket answers
  queries about the installed VR SDKs: \<open>ServerListener\<close> loads two XML files into an
  \<open>XmlDatabase\<close> of \<open>VrSDK\<close> objects, runs in a \<open>Thread\<close> of its own, accepts clients and serves
  each through a \<open>ClientConnector\<close>. A Binder service, \<open>VRNativeService\<close>, reads and writes device
  nodes, runs commands, and gets and sets properties, each within a white list. The library
  \<open>libvrnative_jni\<close> (\<open>VRNativeJNI.cpp\<close>) is loaded by the Java class \<open>VRManager\<close>; its native
  methods call the Binder service through the proxies of \<open>jni/binder\<close>, and it gives the service
  an object through which events come back to Java. On top of \<open>VRManager\<close> the exported service
  \<open>VRAdminService\<close> offers nodes, properties, commands, firmware downloads and monitors to other
  applications, and a broadcast receiver with a proximity sensor keeps the screen on.

  The theories, with the files under \<open>src/jni\<close> they model:
  \<^item> \<open>Prelude\<close>, \<open>CStrings\<close>, \<open>StdMap\<close>: undefined behaviour as a value (\<open>fault\<close>), reachability
    of step relations and the locale \<open>inductive_invariant\<close>; the C library's string functions on
    strings and on buffers; \<open>std::map\<close>, with the locale \<open>first_wins\<close> of a table whose first
    writer wins.
  \<^item> \<open>VrSDK\<close> (\<open>main/VrSDK.cpp\<close>), \<open>XmlDatabase\<close> (\<open>main/XmlDatabase.cpp\<close>, \<open>prebuilt/*.xml\<close>): one
    definition per member function over the records \<open>vrsdk\<close> and \<open>xmldb\<close>. The abstract database is
    a partial map from types to versions and feature maps (\<open>abs_db\<close>); \<open>parser\<close> refines
    \<open>spec_load\<close>. libxml2 is the record \<open>libxml\<close>; \<open>tree_xml\<close> is a concrete instance. The strings
    it allocates are numbered in the order of the calls, so that the calls that free them say
    which one they free (\<open>str_heap\<close>).
  \<^item> \<open>Connector\<close> (\<open>main/Connector.h\<close>): the interface of a connection as the locale
    \<open>connector\<close>, and \<open>sys_read\<close>: of what a descriptor holds, a \<open>read\<close> gets at most the count
    it asks for. \<open>ClientConnector\<close> (\<open>main/ClientConnector.cpp\<close>): the request handler with its two
    buffers; \<open>answer\<close> and \<open>reply_text\<close> say what a request is answered, and \<open>postSelect\<close> refines
    them. The locale is interpreted on it.
  \<^item> \<open>ServerListener\<close> (\<open>main/ServerListener.cpp\<close>): the connection table (locale \<open>conn_table\<close>),
    the set-up of \<open>run\<close>, one turn of the select loop (\<open>loop_round\<close>), the loop over any number
    of turns, and the step relation \<open>srv_step\<close> of the server with the open descriptors of its
    process. Its invariant \<open>srv_inv\<close> is an interpretation of \<open>inductive_invariant\<close>.
  \<^item> \<open>StartupThread\<close> (\<open>main/Thread.cpp\<close>): construction, start and entry of threads as a step
    relation in which the constructing thread and the new threads interleave freely; the state
    holds the two mutexes and the table of threads. A \<open>run\<close> may return at any step or never;
    \<open>startup_step\<close> is every step that does not need one to return.
  \<^item> \<open>NativeService\<close> (\<open>main/VRNativeService.cpp\<close>): each operation with the system calls it makes,
    over a record of the operating system's answers. The contract of the two node operations is
    the locale \<open>guarded_access\<close>, interpreted on both.
  \<^item> \<open>Binder\<close>, \<open>BinderService\<close> (\<open>binder/IVRNativeService.cpp\<close>), \<open>BinderPostEvent\<close>
    (\<open>binder/IVRPostEvent.cpp\<close>): proxies and stubs over an abstract parcel. The only hypothesis on
    the Binder library is \<open>fifo\<close>, that a parcel gives back its items in order; \<open>list_binder\<close> has it.
  \<^item> \<open>JniBridge\<close> (\<open>VRNativeJNI.cpp\<close>), \<open>NativeStack\<close>: the native methods and the event object, and
    their composition with proxy, stub and service.
  \<^item> \<open>ServerMain\<close> (\<open>main/main_vrserver.cpp\<close> and the singletons): the actions of \<open>main\<close>, the
    server built from any two files and from the shipped ones.
  \<^item> \<open>AdminService\<close> (\<open>VRManager.java\<close>, \<open>VRAdminService.java\<close>): the Java singleton as a record of
    methods over the native ones (\<open>VRManager_methods\<close>), the stub's operations with their null
    checks, the download and the death of a monitor as steps of threads that interleave, and the
    life of the monitors as the step relation \<open>mon_step\<close> with its invariant.
  \<^item> \<open>DfuProgress\<close> (\<open>TalkToDfuUtil.java\<close>): the progress protocol of \<open>dfu-util\<close> in Java's 32-bit
    arithmetic.
  \<^item> \<open>HmdReceiver\<close> (\<open>HMDReceiver.java\<close>, \<open>VRAdminApplication.java\<close>, \<open>PSensorUtility.java\<close>, the life
    cycle of \<open>VRAdminService.java\<close>): the receiver on every intent, the wake lock with its count,
    and the sensor that drives it.

  What the groups of properties show. The database holds what the files say and answers lookups
  with the first item of a version; a request is answered within its buffer with the value
  stored, from the file to the socket (\<open>file_value_reaches_client\<close>). The select loop neither
  loses nor closes twice a descriptor, serves each client from its own request only, and is free
  of undefined behaviour while descriptors are below 1024 and the requests of the ready clients
  leave room for a terminator; beyond either bound it is not, which is proved too. A thread's
  \<open>run\<close> never begins before its object is complete, and the start-up ends even if no \<open>run\<close> ever
  does. The parser frees no string twice and leaves one. The service opens only white-listed
  nodes, closes what it opens, and returns the whole output of a command. Proxy and stub
  together are the service itself, so these facts hold for calls from Java, and every call that
  type checks in Java reaches a function of its type. On the Java side the count of monitors
  follows their list as long as no two deaths overlap, and the wake lock follows its
  specification until an intent without action or type ends the process; what happens when two threads meet without a lock, when a number leaves its range and when a
  caller puts shell syntax in a file name is proved as well.

  Loops. The loop over XML siblings is \<open>partial_function (option)\<close>:
  \<open>None\<close> is not returning, and the loading theorems prove that a finite list of
  siblings returns, and \<open>parser_terminates\<close> that nothing else does.
  \<open>read_lines\<close> consumes its input and is total. The select loop has no end;
  \<open>run_loop\<close> runs it over a list of the system's answers, one per turn, of any
  length, and \<open>srv_step\<close> is one turn. No fuel is used.

  Integers. Feature values are 64-bit words, parsed with saturation and printed unsigned. Descriptors,
  results and the numbers of an event are C \<open>int\<close>s passed on unchanged, modelled as \<open>int\<close>; the
  one sum, in \<open>systemCall\<close>, has its overflow as a fault. Java's \<open>int\<close> is a 32-bit word where it is
  counted or multiplied (\<open>mClientCount\<close>, the sizes of a download).

  Not modelled: the text of log messages, allocation failure, the debug dump's output device, the
  reference counts of \<open>sp<>\<close> (except the destructor that runs when the set-up finds no service),
  and the lock \<open>mLock\<close> beyond its place among the calls. The Android framework is arguments and
  actions: callback lists, broadcasts, wake locks, the sensor manager, Binder deaths. A Java
  string is a list of 8-bit characters, and what its conversion to UTF-8 does is a parameter of
  the VM. The AIDL files declare interfaces the build turns into code; the build files and the
  prebuilt binaries hold no logic of the program.
\<close>

section \<open>From the description file to the client\<close>

lemma getSDK_single:
  "mData db = [sdk] \<Longrightarrow> getSDK name db = (if lower name = lower (mType sdk) then Some 0 else None)"
  by (simp add: getSDK_def strcasecmp_eq_def getType_def)

lemma load_single:
  assumes "xml_file X path docroot ns" and "xmlGetProp X docroot ''Version'' = Some v"
  obtains db evs where "parser X (Some path) new_XmlDatabase = Some (0, db, evs)"
    and "mData db = [mData db ! 0]" and "mType (mData db ! 0) = xml_name X docroot"
    and "features (mData db ! 0) = map_of (child_items X ns)"
proof -
  obtain db evs where p: "parser X (Some path) new_XmlDatabase = Some (0, db, evs)"
    and ok: "db_ok db" and a: "abs_db db = spec_load (xml_name X docroot) v (child_items X ns) Map.empty"
    by (rule parser_loads [OF assms db_ok_new]) (use that in simp)
  let ?n = "xml_name X docroot"
  have dom: "abs_db db = [?n \<mapsto> (v, map_of (child_items X ns))]" using a by (simp add: spec_load_def)
  have types: "mType ` set (mData db) = {?n}"
  proof (rule set_eqI)
    fix x show "x \<in> mType ` set (mData db) \<longleftrightarrow> x \<in> {?n}"
      using abs_db_None [of db x] unfolding dom by (cases "x = ?n") simp_all
  qed
  have "distinct (map mType (mData db))" using ok by (simp add: db_ok_def)
  then have "card (set (map mType (mData db))) = length (mData db)" using distinct_card by fastforce
  then have "length (mData db) = Suc 0" using types by simp
  then obtain sdk where m: "mData db = [sdk]" by (auto simp: length_Suc_conv)
  then have "mType sdk = ?n" using types by simp
  moreover from this have "features sdk = map_of (child_items X ns)"
    using abs_db_nth [OF ok, of 0] dom m by (simp add: sdk_entry_def)
  ultimately show ?thesis using that [OF p] m by simp
qed

text \<open>A feature request that fits the buffer, to a database with one SDK.\<close>

lemma feature_served:
  assumes m: "mData db = [mData db ! 0]" and f: "features (mData db ! 0) = items"
    and "sdk \<in> {''svr'', ''lvr''}" and t: "lower (mType (mData db ! 0)) = sdk"
    and msg: "lower (take 12 msg) = sdk @ ''_feature:''" and "no_nul msg" and "length msg \<le> 64"
    and "0 < fd" and "fd < 1024" and "fd \<in> rset" and "0 \<le> wres"
  shows "postSelect db \<lparr>mConnID = fd\<rparr> rset (ReadBytes msg) wres = Inr (RESULT_OK, [IoRead fd 65,
      IoWrite fd (show_nat (unat (case items (takeWhile (\<lambda>c. c \<noteq> CHR ''.'') (drop 12 msg)) of
        None \<Rightarrow> 0 | Some f \<Rightarrow> f)))])"
proof -
  have sdk: "lower sdk = sdk" using assms(3) by (auto simp: lower_def c_tolower_def)
  have g: "getSDK sdk db = Some 0" using getSDK_single [OF m] t sdk by simp
  have a: "answer db msg = Inr (show_nat (unat (getFeature (Some (drop 12 msg)) (mData db ! 0))))"
    using answer_feature [OF msg, of db] assms(3) g by (auto simp: feature_answer_def)
  have r: "reply_text (answer db msg) = show_nat (unat (getFeature (Some (drop 12 msg)) (mData db ! 0)))"
    using length_show_u64 [of "getFeature (Some (drop 12 msg)) (mData db ! 0)"]
    by (simp add: a reply_text_def BUFF_SIZE_def)
  have "length sdk = 3" using assms(3) by auto
  then have "length (take 12 msg) = 12" using arg_cong [OF msg, of length] by simp
  then have long: "msg \<noteq> []" by auto
  have "take 4 (lower (take 12 msg)) = lower (take 4 msg)" by (simp add: lower_def take_map min_def)
  then have "lower (take 4 msg) = take 4 (sdk @ ''_feature:'')" using msg by simp
  then have q: "take 4 msg \<noteq> ''quit''" using assms(3) by (auto simp: lower_def c_tolower_def)
  have range: "fd_in_range fd" using assms(8,9) by (simp add: fd_in_range_def FD_SETSIZE_def)
  have "postSelect db \<lparr>mConnID = fd\<rparr> rset (ReadBytes msg) wres =
      Inr (RESULT_OK, [IoRead fd 65, IoWrite fd (reply_text (answer db msg))])"
    by (rule request_answered [OF range assms(10,11,6,7) long q])
  then show ?thesis by (simp add: r f getFeature_features base_version_def)
qed

text \<open>C4: what a description file says is what a client reads: after one file is loaded, a feature
  request of a client for the file's SDK type is answered on its own socket with the decimal
  value of the first item of the queried version in the file, or with 0, for every file
  libxml2 can present, every spelling of the type and every request that fits the buffer.\<close>

theorem file_value_reaches_client:
  assumes "xml_file X path docroot ns" and "xmlGetProp X docroot ''Version'' = Some v"
    and "sdk \<in> {''svr'', ''lvr''}" and "lower (xml_name X docroot) = sdk"
    and "lower (take 12 msg) = sdk @ ''_feature:''" and "no_nul msg" and "length msg \<le> 64"
    and "0 < fd" and "fd < 1024" and "fd \<in> rset" and "0 \<le> wres"
  shows "\<exists>db evs. parser X (Some path) new_XmlDatabase = Some (0, db, evs) \<and>
    postSelect db \<lparr>mConnID = fd\<rparr> rset (ReadBytes msg) wres = Inr (RESULT_OK, [IoRead fd 65,
      IoWrite fd (show_nat (unat (case map_of (child_items X ns) (takeWhile (\<lambda>c. c \<noteq> CHR ''.'') (drop 12 msg)) of
        None \<Rightarrow> 0 | Some f \<Rightarrow> f)))])"
proof -
  obtain db evs where p: "parser X (Some path) new_XmlDatabase = Some (0, db, evs)"
    and m: "mData db = [mData db ! 0]" and t: "mType (mData db ! 0) = xml_name X docroot"
    and f: "features (mData db ! 0) = map_of (child_items X ns)"
    using load_single [OF assms(1,2)] .
  from p feature_served [OF m f assms(3) _ assms(5-11)] assms(4) t show ?thesis by simp
qed

theorem file_value_reaches_client_witness:
  "\<exists>db evs. parser (tree_xml [''p'' \<mapsto> lvrinfo]) (Some ''p'') new_XmlDatabase = Some (0, db, evs) \<and>
     postSelect db \<lparr>mConnID = 9\<rparr> {9} (ReadBytes ''lvr_feature:Lvr_C_001S.2'') 1 =
       Inr (RESULT_OK, [IoRead 9 65, IoWrite 9 ''3''])"
proof -
  let ?X = "tree_xml [''p'' \<mapsto> lvrinfo]" and ?msg = "''lvr_feature:Lvr_C_001S.2''"
  obtain ps cs where l: "lvrinfo = Elem ''LVR'' ps cs"
    and ps: "ps = [(''Version'', ''Lvr_S_001S.201610260000'')]"
    and cs: "cs = [Text indent, Elem ''ExternalSDK'' [(''Version'', ''Lvr_C_001S'')] [Text ''3''],
      Text [CHR 0x0A]]"
    by (simp add: lvrinfo_def)
  have f: "xml_file ?X ''p'' [lvrinfo] (siblings cs)"
    using tree_xml_file [of "[''p'' \<mapsto> lvrinfo]" "''p''" "''LVR''" ps cs] l by simp
  have v: "xmlGetProp ?X [lvrinfo] ''Version'' = Some ''Lvr_S_001S.201610260000''" by (simp add: l ps)
  have i: "child_items ?X (siblings cs) = [(''Lvr_C_001S'', 3)]"
    by (simp add: cs child_items_def child_item_def atoll_3)
  have n: "lower (xml_name ?X [lvrinfo]) = ''lvr''" by (simp add: l) code_simp
  have s: "''lvr'' \<in> {''svr'', ''lvr''}" by simp
  have m: "lower (take 12 ?msg) = ''lvr'' @ ''_feature:''" "no_nul ?msg" "length ?msg \<le> 64"
    by code_simp (simp_all add: no_nul_def NUL_def)
  have b: "takeWhile (\<lambda>c. c \<noteq> CHR ''.'') (drop 12 ?msg) = ''Lvr_C_001S''" by simp
  have d: "show_nat (unat (3 :: u64)) = ''3''" by code_simp
  have k: "0 < (9 :: int)" "(9 :: int) < 1024" "(9 :: int) \<in> {9}" "0 \<le> (1 :: int)" by simp_all
  show ?thesis
    using file_value_reaches_client [OF f v s n m k] unfolding b i by (simp add: d [simplified])
qed

lemma map_of_first:
  "(\<And>x. x \<in> set pre \<Longrightarrow> map_of (f x) k = None) \<Longrightarrow> map_of (f c) k = Some v \<Longrightarrow>
     map_of (concat (map f (pre @ c # post))) k = Some v"
  by (induction pre) (simp_all add: map_add_Some_iff)

lemma child_item_cases:
  "child_item X n = [] \<or> (\<exists>p v. xmlGetProp X n ''Version'' = Some p \<and> child_item X n = [(p, v)])"
  unfolding child_item_def by (cases "xmlGetProp X n ''Version''"; cases "xmlNodeGetContent X n") auto
lemma child_item_other: "xmlGetProp X n ''Version'' \<noteq> Some q \<Longrightarrow> map_of (child_item X n) q = None"
  using child_item_cases [of X n] by auto

lemma unat_saturated: "unat (word_of_int k :: u64) = nat (k mod 2 ^ 64)"
  by (simp add: unsigned_of_int take_bit_eq_mod flip: nat_take_bit_eq)

text \<open>C15: a feature value survives the way from the file to the client only within the range of
  \<open>long long\<close>. Take one loaded file of type \<open>svr\<close> or \<open>lvr\<close> and the first item of a version that
  has no dot, no NUL and at most 52 characters (the item of a dotted version is never found, its
  client gets the item of the part before the dot, or 0; a request for a longer one does not fit
  the buffer). For every integer \<open>i\<close> written in
  decimal as the text of this item, the client that asks for the version reads \<open>i\<close> cut to
  -2^63 .. 2^63 - 1, modulo 2^64. So 0 to 2^63 - 1 come back unchanged, every larger mask is read
  as 2^63 - 1, and a mask with bit 63 can only be written as a negative number.\<close>

theorem file_value_range:
  assumes "xml_file X path docroot (pre @ c # post)" and "xmlGetProp X docroot ''Version'' = Some v"
    and "sdk \<in> {''svr'', ''lvr''}" and "lower (xml_name X docroot) = sdk"
    and "xml_name X c = ''ExternalSDK''" and "xmlGetProp X c ''Version'' = Some q"
    and "xmlNodeGetContent X c = Some (show_int i)"
    and "\<forall>b \<in> set pre. xmlGetProp X b ''Version'' \<noteq> Some q"
    and "no_nul q" and "CHR ''.'' \<notin> set q" and "length q \<le> 52"
    and "0 < fd" and "fd < 1024" and "fd \<in> rset" and "0 \<le> wres"
  shows "\<exists>db evs. parser X (Some path) new_XmlDatabase = Some (0, db, evs) \<and>
    postSelect db \<lparr>mConnID = fd\<rparr> rset (ReadBytes (sdk @ ''_feature:'' @ q)) wres =
      Inr (RESULT_OK, [IoRead fd 65,
        IoWrite fd (show_nat (nat (max (- (2 ^ 63)) (min (2 ^ 63 - 1) i) mod 2 ^ 64)))])"
proof -
  obtain db evs where p: "parser X (Some path) new_XmlDatabase = Some (0, db, evs)"
    and m: "mData db = [mData db ! 0]" and t: "mType (mData db ! 0) = xml_name X docroot"
    and f: "features (mData db ! 0) = map_of (child_items X (pre @ c # post))"
    using load_single [OF assms(1,2)] .
  have sdk: "length sdk = 3" "lower sdk = sdk" "no_nul sdk"
    using assms(3) by (auto simp: lower_def c_tolower_def no_nul_def NUL_def)
  let ?msg = "sdk @ ''_feature:'' @ q"
  have d: "take 12 ?msg = sdk @ ''_feature:''" "drop 12 ?msg = q" using sdk(1) by simp_all
  have l: "lower (sdk @ ''_feature:'') = sdk @ ''_feature:''"
    using sdk(2) by (simp add: lower_def c_tolower_def)
  have n: "no_nul ?msg" using sdk(3) assms(9) by (simp add: no_nul_def NUL_def)
  have s: "length ?msg \<le> 64" using sdk(1) assms(11) by simp
  have tw: "takeWhile (\<lambda>c. c \<noteq> CHR ''.'') q = q" using assms(10) by (auto simp: takeWhile_eq_all_conv)
  have item: "map_of (child_item X c) q = Some (word_of_int (saturate64 i))"
    using assms(5-7) by (simp add: child_item_def atoll_show_int)
  have other: "map_of (child_item X b) q = None" if "b \<in> set pre" for b
    by (rule child_item_other) (rule assms(8) [rule_format, OF that])
  have "map_of (child_items X (pre @ c # post)) q = Some (word_of_int (saturate64 i))"
    unfolding child_items_def by (rule map_of_first [where f = "child_item X"]) (simp_all only: other item)
  then have reads: "unat (case map_of (child_items X (pre @ c # post)) (takeWhile (\<lambda>c. c \<noteq> CHR ''.'') (drop 12 ?msg)) of
      None \<Rightarrow> 0 | Some f \<Rightarrow> f) = nat (max (- (2 ^ 63)) (min (2 ^ 63 - 1) i) mod 2 ^ 64)"
    unfolding d tw by (simp only: option.case unat_saturated saturate64_def)
  have type: "lower (mType (mData db ! 0)) = sdk" using assms(4) t by simp
  have req: "lower (take 12 ?msg) = sdk @ ''_feature:''" unfolding d by (rule l)
  show ?thesis
    using p feature_served [OF m f assms(3) type req n s assms(12-15)] unfolding reads by blast
qed

theorem file_value_range_witness:
  "\<exists>db evs. parser (tree_xml [''p'' \<mapsto> Elem ''SVR'' [(''Version'', ''1'')]
        [Elem ''ExternalSDK'' [(''Version'', ''A'')] [Text (show_int (2 ^ 64 - 1))]]]) (Some ''p'')
      new_XmlDatabase = Some (0, db, evs) \<and>
     postSelect db \<lparr>mConnID = 9\<rparr> {9} (ReadBytes ''svr_feature:A'') 1 =
       Inr (RESULT_OK, [IoRead 9 65, IoWrite 9 (show_nat (2 ^ 63 - 1))])"
proof -
  define i :: int where "i = 2 ^ 64 - 1"
  let ?e = "Elem ''ExternalSDK'' [(''Version'', ''A'')] [Text (show_int i)]"
  let ?root = "Elem ''SVR'' [(''Version'', ''1'')] [?e]"
  let ?X = "tree_xml [''p'' \<mapsto> ?root]"
  have f: "xml_file ?X ''p'' [?root] ([] @ [?e] # [])"
    using tree_xml_file [of "[''p'' \<mapsto> ?root]" "''p''" "''SVR''" "[(''Version'', ''1'')]" "[?e]"] by simp
  have v: "xmlGetProp ?X [?root] ''Version'' = Some ''1''" by simp
  have n: "lower (xml_name ?X [?root]) = ''svr''" by simp code_simp
  have s: "''svr'' \<in> {''svr'', ''lvr''}" by simp
  have c: "xml_name ?X [?e] = ''ExternalSDK''" "xmlGetProp ?X [?e] ''Version'' = Some ''A''"
    "xmlNodeGetContent ?X [?e] = Some (show_int i)"
    "\<forall>b \<in> set []. xmlGetProp ?X b ''Version'' \<noteq> Some ''A''" by simp_all
  have q: "no_nul ''A''" "CHR ''.'' \<notin> set ''A''" "length ''A'' \<le> 52"
    by (simp_all add: no_nul_def NUL_def)
  have k: "0 < (9 :: int)" "(9 :: int) < 1024" "(9 :: int) \<in> {9}" "0 \<le> (1 :: int)" by simp_all
  have m: "nat (max (- (2 ^ 63)) (min (2 ^ 63 - 1) i) mod 2 ^ 64) = 2 ^ 63 - 1" by (simp add: i_def)
  have msg: "''svr'' @ ''_feature:'' @ ''A'' = ''svr_feature:A''" by simp
  from file_value_range [OF f v s n c q k] show ?thesis
    unfolding m msg unfolding i_def .
qed

end
